theory Spec2Isabelle
  imports Main
begin

section \<open>Errors\<close>

text \<open>
  Every \<^verbatim>\<open>throw\<close> of \<^verbatim>\<open>utils/instagram.ts\<close> and every rejection of a
  collaborator it awaits is a value of this type; a function that can throw returns
  \<open>error + 'a\<close>, with \<open>Inl\<close> for the exception.
\<close>

datatype error =
    Error string
  | SyntaxError
  | TypeError
  | PrismaClientKnownRequestError string
  | RateLimitError int int int
  | Rejected string

section \<open>The inference candidate\<close>

text \<open>
  Modelled from the spec: the declaration of \<^verbatim>\<open>OpenAiInstagramResult\<close> lives in
  \<^verbatim>\<open>utils/openai\<close>, which is not among the sources. The spec's data model gives a
  boolean event flag, a title, day/month/year/hour/minute fields for start and end,
  each independently nullable, and the two flags \<^verbatim>\<open>hasStartHourInPost\<close> and
  \<^verbatim>\<open>isPastEvent\<close>. \<open>None\<close> is JSON \<^verbatim>\<open>null\<close>; the flags and the title may
  be \<^verbatim>\<open>null\<close> too, since the code compares them with \<^verbatim>\<open>===\<close>. Numbers are
  integers.
\<close>

record OpenAiInstagramResult =
  isEvent :: "bool option"
  title :: "string option"
  startHourMilitaryTime :: "int option"
  endHourMilitaryTime :: "int option"
  isPastEvent :: "bool option"
  hasStartHourInPost :: "bool option"
  startMinute :: "int option"
  endMinute :: "int option"
  startDay :: "int option"
  endDay :: "int option"
  startMonth :: "int option"
  endMonth :: "int option"
  startYear :: "int option"
  endYear :: "int option"

text \<open>
  The object that \<^verbatim>\<open>JSON.parse\<close> returns may lack any of the keys: a property is
  \<open>Absent\<close>, or \<open>Present\<close> with a nullable value. Keys other than the fourteen are
  never read and are left out.
\<close>

datatype 'a property = Absent | Present 'a

record ParsedObject =
  p_isEvent :: "bool option property"
  p_title :: "string option property"
  p_startHourMilitaryTime :: "int option property"
  p_endHourMilitaryTime :: "int option property"
  p_isPastEvent :: "bool option property"
  p_hasStartHourInPost :: "bool option property"
  p_startMinute :: "int option property"
  p_endMinute :: "int option property"
  p_startDay :: "int option property"
  p_endDay :: "int option property"
  p_startMonth :: "int option property"
  p_endMonth :: "int option property"
  p_startYear :: "int option property"
  p_endYear :: "int option property"

fun hasOwn :: "'a property \<Rightarrow> bool" where
  "hasOwn Absent = False"
| "hasOwn (Present v) = True"

text \<open>Reading a property; the read of an absent one is never reached (the shape check
  throws first), it reads as \<^verbatim>\<open>null\<close> here.\<close>

fun getProp :: "'a option property \<Rightarrow> 'a option" where
  "getProp Absent = None"
| "getProp (Present v) = v"

definition asResult :: "ParsedObject \<Rightarrow> OpenAiInstagramResult" where
  "asResult object =
     \<lparr> isEvent = getProp (p_isEvent object),
       title = getProp (p_title object),
       startHourMilitaryTime = getProp (p_startHourMilitaryTime object),
       endHourMilitaryTime = getProp (p_endHourMilitaryTime object),
       isPastEvent = getProp (p_isPastEvent object),
       hasStartHourInPost = getProp (p_hasStartHourInPost object),
       startMinute = getProp (p_startMinute object),
       endMinute = getProp (p_endMinute object),
       startDay = getProp (p_startDay object),
       endDay = getProp (p_endDay object),
       startMonth = getProp (p_startMonth object),
       endMonth = getProp (p_endMonth object),
       startYear = getProp (p_startYear object),
       endYear = getProp (p_endYear object) \<rparr>"

section \<open>Result sanitizer: \<^verbatim>\<open>postProcessOpenAiInstagramResponse\<close>\<close>

text \<open>\<^verbatim>\<open>generatedJson.replace(/^[^{]*/, '').replace(/[^}]*$/, '')\<close>: the longest
  prefix without an opening brace and the longest suffix without a closing brace go.\<close>

definition fixGeneratedJson :: "string \<Rightarrow> string" where
  "fixGeneratedJson generatedJson =
     rev (dropWhile (\<lambda>c. c \<noteq> CHR ''}'') (rev (dropWhile (\<lambda>c. c \<noteq> CHR ''{'') generatedJson)))"

definition hasAllProperties :: "ParsedObject \<Rightarrow> bool" where
  "hasAllProperties object \<longleftrightarrow>
     hasOwn (p_isEvent object)
     \<and> hasOwn (p_title object)
     \<and> hasOwn (p_startHourMilitaryTime object)
     \<and> hasOwn (p_endHourMilitaryTime object)
     \<and> hasOwn (p_isPastEvent object)
     \<and> hasOwn (p_hasStartHourInPost object)
     \<and> hasOwn (p_startMinute object)
     \<and> hasOwn (p_endMinute object)
     \<and> hasOwn (p_startDay object)
     \<and> hasOwn (p_endDay object)
     \<and> hasOwn (p_startMonth object)
     \<and> hasOwn (p_endMonth object)
     \<and> hasOwn (p_startYear object)
     \<and> hasOwn (p_endYear object)"

text \<open>A nullable number as an operand of \<^verbatim>\<open>+\<close>: JavaScript reads \<^verbatim>\<open>null\<close> as 0.\<close>

fun toNumber :: "int option \<Rightarrow> int" where
  "toNumber None = 0"
| "toNumber (Some n) = n"

text \<open>The post-processing statements, one definition for each \<^verbatim>\<open>if\<close>, in the order
  of the source. \<open>fullYear\<close> is \<^verbatim>\<open>new Date().getFullYear()\<close>.\<close>

definition fillStartYear :: "int \<Rightarrow> OpenAiInstagramResult \<Rightarrow> OpenAiInstagramResult" where
  "fillStartYear fullYear object =
     (if startYear object = None then object\<lparr>startYear := Some fullYear\<rparr> else object)"

definition fillEndYear :: "OpenAiInstagramResult \<Rightarrow> OpenAiInstagramResult" where
  "fillEndYear object =
     (if endYear object = None then object\<lparr>endYear := startYear object\<rparr> else object)"

definition fillStartMinute :: "OpenAiInstagramResult \<Rightarrow> OpenAiInstagramResult" where
  "fillStartMinute object =
     (if startMinute object = None then object\<lparr>startMinute := Some 0\<rparr> else object)"

definition fillEndMinute :: "OpenAiInstagramResult \<Rightarrow> OpenAiInstagramResult" where
  "fillEndMinute object =
     (if endMinute object = None then object\<lparr>endMinute := Some 0\<rparr> else object)"

definition rolloverYear :: "OpenAiInstagramResult \<Rightarrow> OpenAiInstagramResult" where
  "rolloverYear object =
     (if startMonth object = Some 12 \<and> endMonth object = Some 1
      then object\<lparr>endYear := Some (toNumber (startYear object) + 1)\<rparr> else object)"

definition fillEndMonth :: "OpenAiInstagramResult \<Rightarrow> OpenAiInstagramResult" where
  "fillEndMonth object =
     (if endMonth object = None then object\<lparr>endMonth := startMonth object\<rparr> else object)"

definition fillEndDay :: "OpenAiInstagramResult \<Rightarrow> OpenAiInstagramResult" where
  "fillEndDay object =
     (if endDay object = None then object\<lparr>endDay := startDay object\<rparr> else object)"

definition fillEndHour :: "OpenAiInstagramResult \<Rightarrow> OpenAiInstagramResult" where
  "fillEndHour object =
     (if endHourMilitaryTime object = None then
        (let h = toNumber (startHourMilitaryTime object) + 2 in
         if h > 23
         then object\<lparr>endHourMilitaryTime := Some (h - 24),
                     endDay := Some (toNumber (startDay object) + 1)\<rparr>
         else object\<lparr>endHourMilitaryTime := Some h\<rparr>)
      else object)"

definition postProcessing :: "int \<Rightarrow> OpenAiInstagramResult \<Rightarrow> OpenAiInstagramResult" where
  "postProcessing fullYear object =
     fillEndHour (fillEndDay (fillEndMonth (rolloverYear (fillEndMinute (fillStartMinute
       (fillEndYear (fillStartYear fullYear object)))))))"

text \<open>\<open>parse\<close> is \<^verbatim>\<open>JSON.parse\<close> (\<open>None\<close> when it throws a \<^verbatim>\<open>SyntaxError\<close>). The text
  it is given starts with an opening brace or is empty, so what it returns is an object
  and \<^verbatim>\<open>object &&\<close> holds.\<close>

definition postProcessOpenAiInstagramResponse ::
  "(string \<Rightarrow> ParsedObject option) \<Rightarrow> int \<Rightarrow> string \<Rightarrow> error + OpenAiInstagramResult" where
  "postProcessOpenAiInstagramResponse parse fullYear generatedJson =
     (case parse (fixGeneratedJson generatedJson) of
        None \<Rightarrow> Inl SyntaxError
      | Some object \<Rightarrow>
          if \<not> hasAllProperties object
          then Inl (Error ''JSON does not contain expected fields'')
          else Inr (postProcessing fullYear (asResult object)))"

section \<open>Calendar arithmetic of the date library\<close>

text \<open>
  \<^verbatim>\<open>DateTime\<close> is the date library's (luxon), which is not part of the repository;
  what the code uses of it is modelled here after the library's documented behaviour.
  A \<^verbatim>\<open>DateTime\<close> is invalid (\<open>None\<close>) or a wall-clock time, counted in
  milliseconds from 1970-01-01T00:00 of the same wall clock. Seconds and milliseconds
  are never given by the code and are zero.
\<close>

type_synonym DateTime = "int option"

definition isLeapYear :: "int \<Rightarrow> bool" where
  "isLeapYear year \<longleftrightarrow> year mod 4 = 0 \<and> (year mod 100 \<noteq> 0 \<or> year mod 400 = 0)"

definition daysInMonth :: "int \<Rightarrow> int \<Rightarrow> int" where
  "daysInMonth year month =
     (if month = 2 then (if isLeapYear year then 29 else 28)
      else if month = 4 \<or> month = 6 \<or> month = 9 \<or> month = 11 then 30 else 31)"

text \<open>Days from 1970-01-01 to the given day of the proleptic Gregorian calendar.\<close>

definition daysFromCivil :: "int \<Rightarrow> int \<Rightarrow> int \<Rightarrow> int" where
  "daysFromCivil year month day =
     (let y = (if month \<le> 2 then year - 1 else year);
          era = y div 400;
          yoe = y - era * 400;
          mp = (if month > 2 then month - 3 else month + 9);
          doy = (153 * mp + 2) div 5 + day - 1;
          doe = yoe * 365 + yoe div 4 - yoe div 100 + doy
      in era * 146097 + doe - 719468)"

text \<open>
  A JavaScript time value is at most 8.64e15 milliseconds away from the epoch (about the
  years -271821 to 275760); \<^verbatim>\<open>Date.UTC\<close> and \<^verbatim>\<open>new Date\<close> give no date beyond
  that, and the library then has an invalid \<^verbatim>\<open>DateTime\<close>.
\<close>

definition timeClip :: "int \<Rightarrow> int option" where
  "timeClip t = (if - 8640000000000000 \<le> t \<and> t \<le> 8640000000000000 then Some t else None)"

definition objToLocalTS :: "int \<Rightarrow> int \<Rightarrow> int \<Rightarrow> int \<Rightarrow> int \<Rightarrow> int" where
  "objToLocalTS year month day hour minute =
     ((daysFromCivil year month day * 24 + hour) * 60 + minute) * 60000"

text \<open>The library's range check of the units; it accepts 24:00 as an hour. It puts no
  bound on the year: a year for which the time is out of range is refused when the time
  is computed (\<open>timeClip\<close> in \<open>fromObject\<close>).\<close>

definition validUnits :: "int \<Rightarrow> int \<Rightarrow> int \<Rightarrow> int \<Rightarrow> int \<Rightarrow> bool" where
  "validUnits year month day hour minute \<longleftrightarrow>
     1 \<le> month \<and> month \<le> 12
     \<and> 1 \<le> day \<and> day \<le> daysInMonth year month
     \<and> ((0 \<le> hour \<and> hour \<le> 23) \<or> (hour = 24 \<and> minute = 0))
     \<and> 0 \<le> minute \<and> minute \<le> 59"

text \<open>
  \<^verbatim>\<open>DateTime.fromObject({ year, month, day, hour, minute }, { zone })\<close>. A unit that is
  \<^verbatim>\<open>null\<close> is skipped by the library: a missing year is the current one, a missing
  month is the current one when the year is missing too and January otherwise.
  \<open>nowYear\<close> and \<open>nowMonth\<close> are the current year and month in the zone.
\<close>

definition fromObject ::
  "int \<Rightarrow> int \<Rightarrow> int option \<Rightarrow> int option \<Rightarrow> int \<Rightarrow> int \<Rightarrow> int \<Rightarrow> DateTime" where
  "fromObject nowYear nowMonth year month day hour minute =
     (let y = (case year of None \<Rightarrow> nowYear | Some v \<Rightarrow> v);
          m = (case month of None \<Rightarrow> (if year = None then nowMonth else 1) | Some v \<Rightarrow> v)
      in if validUnits y m day hour minute
         then timeClip (objToLocalTS y m day hour minute) else None)"

text \<open>\<^verbatim>\<open>dt.plus({ days })\<close>: the wall clock moves by whole days, and the calendar
  takes the overflow of the month; an invalid \<^verbatim>\<open>DateTime\<close> stays invalid, and a
  time out of range is invalid.\<close>

definition plusDays :: "DateTime \<Rightarrow> int \<Rightarrow> DateTime" where
  "plusDays dt days =
     (case dt of None \<Rightarrow> None | Some ts \<Rightarrow> timeClip (ts + days * 86400000))"

text \<open>
  \<^verbatim>\<open>dt.toUTC().toJSDate()\<close>: the instant in milliseconds since the epoch, \<open>None\<close> for
  the invalid date. \<open>zone\<close> gives the offset from UTC, in milliseconds, that the time
  zone (America/Los_Angeles in the code) has at a wall-clock time: eight hours behind
  UTC in winter and seven in summer since 1883, and the local mean time of the city,
  7:52:58 behind, before.
\<close>

definition toJSDate :: "(int \<Rightarrow> int) \<Rightarrow> DateTime \<Rightarrow> int option" where
  "toJSDate zone dt = (case dt of None \<Rightarrow> None | Some ts \<Rightarrow> timeClip (ts - zone ts))"

section \<open>The store\<close>

record InstagramEventOrganizer =
  organizer_id :: int
  username :: string
  city :: string
  contextClues :: string
  lastUpdated :: int

text \<open>
  The records of the three tables, with the fields that the code reads and writes (the
  generated ids of events are left out). \<open>mediaUrlsJson\<close> holds the value that
  \<^verbatim>\<open>JSON.stringify\<close> wrote and \<^verbatim>\<open>JSON.parse\<close> reads back: \<^verbatim>\<open>null\<close> or a list
  of URLs. \<open>postDate\<close> keeps the timestamp text of the API. The instants of an event
  are milliseconds since the epoch, \<open>None\<close> for the invalid date.
\<close>

record InstagramPost =
  post_id :: string
  url :: string
  organizerId :: int
  caption :: "string option"
  postDate :: string
  mediaUrlsJson :: "string list option"
  completedAt :: "int option"

record InstagramEvent =
  postID :: string
  start :: "int option"
  end_e :: "int option"
  event_url :: string
  event_title :: string
  event_organizerId :: int

datatype log_entry =
    LogDebugRateLimit string
  | LogDebugPrompt string
  | LogErrorUnknownMediaType string
  | LogErrorIngesting error string
  | LogInfoStartUser string
  | LogInfoCompletedUser nat string
  | LogInfoStart
  | LogInfoCompleted "(string \<times> nat) list"

text \<open>
  The three tables, the URLs sent to the text-detection service and the log. A write to
  the store succeeds unless the store has a reason of its own to refuse it: a second
  post with a known id, or the update of a post it does not have.
\<close>

record state =
  organizers :: "InstagramEventOrganizer list"
  posts :: "InstagramPost list"
  events :: "InstagramEvent list"
  ocrRequests :: "string list"
  logged :: "log_entry list"

text \<open>\<^verbatim>\<open>prisma.instagramPost.update({ where: { id }, data: { completedAt } })\<close>: the
  store rejects the update of a record it does not have.\<close>

definition updateCompletedAt :: "string \<Rightarrow> int \<Rightarrow> state \<Rightarrow> error + state" where
  "updateCompletedAt i t s =
     (if i \<in> post_id ` set (posts s)
      then Inr (s\<lparr>posts := map (\<lambda>p. if post_id p = i then p\<lparr>completedAt := Some t\<rparr> else p) (posts s)\<rparr>)
      else Inl (PrismaClientKnownRequestError ''P2025''))"

section \<open>\<^verbatim>\<open>persistEvent\<close>\<close>

text \<open>The clock: the current year and month, the value of \<^verbatim>\<open>new Date()\<close> and the
  offsets of the time zone.\<close>

record clock =
  nowYear :: int
  nowMonth :: int
  nowDate :: int
  zone :: "int \<Rightarrow> int"

text \<open>The condition of the \<^verbatim>\<open>if\<close> of \<^verbatim>\<open>persistEvent\<close>, in the order of the source.\<close>

definition acceptanceGate :: "OpenAiInstagramResult \<Rightarrow> bool" where
  "acceptanceGate inference \<longleftrightarrow>
     isEvent inference = Some True
     \<and> startDay inference \<noteq> None
     \<and> startHourMilitaryTime inference \<noteq> None
     \<and> endHourMilitaryTime inference \<noteq> None
     \<and> startMinute inference \<noteq> None
     \<and> endMinute inference \<noteq> None
     \<and> endDay inference \<noteq> None
     \<and> hasStartHourInPost inference = Some True
     \<and> isPastEvent inference = Some False"

text \<open>The template literal writes a \<^verbatim>\<open>null\<close> title as the text \<^verbatim>\<open>null\<close>.\<close>

definition eventTitle :: "string option \<Rightarrow> string \<Rightarrow> string" where
  "eventTitle t user = (case t of None \<Rightarrow> ''null'' | Some v \<Rightarrow> v) @ '' @ '' @ user"

text \<open>
  The two \<^verbatim>\<open>DateTime\<close> values. They are built behind the gate only, where the day,
  hour and minute fields are not \<^verbatim>\<open>null\<close>. The end is built on the start day and
  then moved by \<^verbatim>\<open>endDay - startDay\<close> days.
\<close>

definition eventEnd :: "'a clock_scheme \<Rightarrow> OpenAiInstagramResult \<Rightarrow> DateTime" where
  "eventEnd c inference =
     plusDays
       (fromObject (nowYear c) (nowMonth c) (endYear inference) (endMonth inference)
          (the (startDay inference)) (the (endHourMilitaryTime inference))
          (the (endMinute inference)))
       (the (endDay inference) - the (startDay inference))"

definition eventStart :: "'a clock_scheme \<Rightarrow> OpenAiInstagramResult \<Rightarrow> DateTime" where
  "eventStart c inference =
     fromObject (nowYear c) (nowMonth c) (startYear inference) (startMonth inference)
       (the (startDay inference)) (the (startHourMilitaryTime inference))
       (the (startMinute inference))"

definition newEvent ::
  "'a clock_scheme \<Rightarrow> OpenAiInstagramResult \<Rightarrow> InstagramPost \<Rightarrow> InstagramEventOrganizer \<Rightarrow> InstagramEvent" where
  "newEvent c inference post organizer =
     \<lparr> postID = post_id post,
       start = toJSDate (zone c) (eventStart c inference),
       end_e = toJSDate (zone c) (eventEnd c inference),
       event_url = url post,
       event_title = eventTitle (title inference) (username organizer),
       event_organizerId = organizerId post \<rparr>"

text \<open>
  \<^verbatim>\<open>prisma.instagramEvent.create\<close> is the addition of the record to the table, as it
  is given; then the post is marked complete; the function returns \<^verbatim>\<open>null\<close> on every
  path.
\<close>

definition persistEvent ::
  "'a clock_scheme \<Rightarrow> OpenAiInstagramResult \<Rightarrow> InstagramPost \<Rightarrow> InstagramEventOrganizer \<Rightarrow> state
     \<Rightarrow> (error + InstagramEvent option) \<times> state" where
  "persistEvent c inference post organizer s =
     (if acceptanceGate inference then
        (let s1 = s\<lparr>events := events s @ [newEvent c inference post organizer]\<rparr>
         in case updateCompletedAt (post_id post) (nowDate c) s1 of
              Inl e \<Rightarrow> (Inl e, s1)
            | Inr s2 \<Rightarrow> (Inr None, s2))
      else (Inr None, s))"

section \<open>Collaborators\<close>

text \<open>
  The services the code awaits are parameters of the model. A rejection of one of them
  carries a message and becomes the exception \<open>Rejected\<close>.
\<close>

record InstagramSource =
  source_username :: string
  source_city :: string
  context_clues :: "string list"

text \<open>
  A configured source and a post as the API returns it, with the fields that the code
  reads (their declarations are in \<^verbatim>\<open>~~/types\<close>, which is not among the sources).
  \<open>children\<close> lists the \<^verbatim>\<open>media_url\<close> of each child, which may be omitted.
\<close>

record InstagramApiPost =
  api_id :: string
  permalink :: string
  api_caption :: "string option"
  timestamp :: string
  media_type :: string
  media_url :: "string option"
  children :: "string option list option"

record AppUsage =
  call_count :: int
  total_cputime :: int
  total_time :: int

text \<open>The body of the response: an error message when it carries an error object, and
  \<^verbatim>\<open>business_discovery.media.data\<close> when that path exists.\<close>

record ResponseBody =
  body_error :: "string option"
  media_data :: "InstagramApiPost list option"

text \<open>\<open>x_app_usage\<close> is the \<^verbatim>\<open>X-App-Usage\<close> header, parsed, with its three numbers;
  \<open>None\<close> when the header is absent or empty. \<open>json\<close> is what \<^verbatim>\<open>response.json()\<close>
  resolves to.\<close>

record Response =
  x_app_usage :: "AppUsage option"
  json :: "string + ResponseBody"

text \<open>What text detection returns for one image.\<close>

record Detection =
  textAnnotations :: "string list option"
  fullTextAnnotation :: "string option"

text \<open>
  \<open>fetch\<close> answers the request for an account's posts, by user name.
  \<open>textDetection\<close> is the text-detection client, and the two flags say whether its
  credentials are in the environment. \<open>instagramInitialPrompt\<close> and \<open>executePrompt\<close>
  are the two functions of \<^verbatim>\<open>utils/openai\<close>, which is not among the sources; the
  second gives the content of the first choice's message, if any. \<open>parse\<close> is
  \<^verbatim>\<open>JSON.parse\<close> on the generated text.
\<close>

record env = clock +
  fetch :: "string \<Rightarrow> string + Response"
  visionPrivateKey :: bool
  visionClientEmail :: bool
  textDetection :: "string \<Rightarrow> string + Detection"
  instagramInitialPrompt :: "InstagramEventOrganizer \<Rightarrow> InstagramPost \<Rightarrow> string option \<Rightarrow> string"
  executePrompt :: "string \<Rightarrow> string + string option"
  parse :: "string \<Rightarrow> ParsedObject option"

definition writeLog :: "log_entry \<Rightarrow> state \<Rightarrow> state" where
  "writeLog entry s = s\<lparr>logged := logged s @ [entry]\<rparr>"

text \<open>\<^verbatim>\<open>Promise.all\<close>: every promise has been started; the result is the list of the
  values, or a rejection when one of them rejects. The rejection is the one that comes
  first in time; the model takes the first of the list.\<close>

fun promiseAll :: "(error + 'a) list \<Rightarrow> error + 'a list" where
  "promiseAll [] = Inr []"
| "promiseAll (Inl e # rs) = Inl e"
| "promiseAll (Inr v # rs) = (case promiseAll rs of Inl e \<Rightarrow> Inl e | Inr vs \<Rightarrow> Inr (v # vs))"

section \<open>Text extractor\<close>

text \<open>\<^verbatim>\<open>array.join(separator)\<close>.\<close>

fun join :: "string \<Rightarrow> string list \<Rightarrow> string" where
  "join separator [] = []"
| "join separator [x] = x"
| "join separator (x # y # ys) = x @ separator @ join separator (y # ys)"

definition annotationText :: "env \<Rightarrow> string \<Rightarrow> error + string" where
  "annotationText E u =
     (case textDetection E u of
        Inl msg \<Rightarrow> Inl (Rejected msg)
      | Inr result \<Rightarrow>
          (case textAnnotations result of
             None \<Rightarrow> Inr []
           | Some as \<Rightarrow>
               if length as > 0
               then (case fullTextAnnotation result of None \<Rightarrow> Inl TypeError | Some t \<Rightarrow> Inr t)
               else Inr []))"

definition fetchOcrResults :: "env \<Rightarrow> string list \<Rightarrow> state \<Rightarrow> (error + string) \<times> state" where
  "fetchOcrResults E urls s =
     (if \<not> visionPrivateKey E then (Inl (Error ''GOOGLE_CLOUD_VISION_PRIVATE_KEY not found.''), s)
      else if \<not> visionClientEmail E then (Inl (Error ''GOOGLE_CLOUD_VISION_CLIENT_EMAIL not found.''), s)
      else
        (let s1 = s\<lparr>ocrRequests := ocrRequests s @ urls\<rparr>
         in case promiseAll (map (annotationText E) urls) of
              Inl e \<Rightarrow> (Inl e, s1)
            | Inr annotationsAll \<Rightarrow> (Inr (join [CHR 0x0A] annotationsAll), s1)))"

definition extractTextFromPostImages ::
  "env \<Rightarrow> InstagramPost \<Rightarrow> state \<Rightarrow> (error + string option) \<times> state" where
  "extractTextFromPostImages E post s =
     (case mediaUrlsJson post of
        None \<Rightarrow> (Inr None, s)
      | Some mediaUrls \<Rightarrow>
          (case fetchOcrResults E mediaUrls s of
             (Inl e, s1) \<Rightarrow> (Inl e, s1)
           | (Inr text, s1) \<Rightarrow> (Inr (Some text), s1)))"

section \<open>Inference client\<close>

definition runInferenceOnPost ::
  "env \<Rightarrow> InstagramEventOrganizer \<Rightarrow> InstagramPost \<Rightarrow> string option \<Rightarrow> state
     \<Rightarrow> (error + OpenAiInstagramResult option) \<times> state" where
  "runInferenceOnPost E organizer apiPost ocrResult s =
     (let initialPrompt = instagramInitialPrompt E organizer apiPost ocrResult;
          s1 = writeLog (LogDebugPrompt initialPrompt) s
      in case executePrompt E initialPrompt of
           Inl msg \<Rightarrow> (Inl (Rejected msg), s1)
         | Inr None \<Rightarrow> (Inr None, s1)
         | Inr (Some generatedJson) \<Rightarrow>
             if generatedJson = [] then (Inr None, s1)
             else (case postProcessOpenAiInstagramResponse (parse E) (nowYear E) generatedJson of
                     Inl e \<Rightarrow> (Inl e, s1)
                   | Inr inference \<Rightarrow> (Inr (Some inference), s1)))"

section \<open>Post store\<close>

text \<open>\<^verbatim>\<open>.map((child) => child.media_url).filter((mediaUrl) => mediaUrl)\<close>: the URLs
  that are defined and not empty.\<close>

fun definedUrls :: "string option list \<Rightarrow> string list" where
  "definedUrls [] = []"
| "definedUrls (None # rest) = definedUrls rest"
| "definedUrls (Some mediaUrl # rest) =
     (if mediaUrl \<noteq> [] then mediaUrl # definedUrls rest else definedUrls rest)"

definition getMediaUrls :: "InstagramApiPost \<Rightarrow> state \<Rightarrow> string list option \<times> state" where
  "getMediaUrls post s =
     (if media_type post = ''IMAGE'' then
        (case media_url post of
           None \<Rightarrow> (None, s)
         | Some u \<Rightarrow> if u \<noteq> [] then (Some [u], s) else (None, s))
      else if media_type post = ''CAROUSEL_ALBUM'' then
        (Some (definedUrls (case children post of None \<Rightarrow> [] | Some data \<Rightarrow> data)), s)
      else if media_type post = ''VIDEO'' then (None, s)
      else (None, writeLog (LogErrorUnknownMediaType (media_type post)) s))"

text \<open>\<^verbatim>\<open>prisma.instagramPost.create\<close>: the post id is unique in the table, and a second
  record with a known id is refused with the code P2002.\<close>

definition createPost :: "InstagramPost \<Rightarrow> state \<Rightarrow> error + InstagramPost \<times> state" where
  "createPost post s =
     (if post_id post \<in> post_id ` set (posts s)
      then Inl (PrismaClientKnownRequestError ''P2002'')
      else Inr (post, s\<lparr>posts := posts s @ [post]\<rparr>))"

definition persistPostNoneIfPresent ::
  "InstagramEventOrganizer \<Rightarrow> InstagramApiPost \<Rightarrow> state
     \<Rightarrow> (error + InstagramPost option) \<times> state" where
  "persistPostNoneIfPresent organizer post s =
     (case getMediaUrls post s of
        (mediaUrls, s1) \<Rightarrow>
          (case createPost
                  \<lparr> post_id = api_id post,
                    url = permalink post,
                    organizerId = organizer_id organizer,
                    caption = api_caption post,
                    postDate = timestamp post,
                    mediaUrlsJson = mediaUrls,
                    completedAt = None \<rparr> s1 of
             Inr (created, s2) \<Rightarrow> (Inr (Some created), s2)
           | Inl e \<Rightarrow>
               (case e of
                  PrismaClientKnownRequestError code \<Rightarrow>
                    if code = ''P2002'' then (Inr None, s1) else (Inl e, s1)
                | _ \<Rightarrow> (Inl e, s1))))"

section \<open>Ingestion orchestrator\<close>

definition extractEventFromPost ::
  "env \<Rightarrow> InstagramEventOrganizer \<Rightarrow> InstagramPost \<Rightarrow> state
     \<Rightarrow> (error + InstagramEvent option) \<times> state" where
  "extractEventFromPost E organizer post s =
     (case extractTextFromPostImages E post s of
        (Inl e, s1) \<Rightarrow> (Inl e, s1)
      | (Inr imageText, s1) \<Rightarrow>
          (case runInferenceOnPost E organizer post imageText s1 of
             (Inl e, s2) \<Rightarrow> (Inl e, s2)
           | (Inr None, s2) \<Rightarrow> (Inr None, s2)
           | (Inr (Some inference), s2) \<Rightarrow> persistEvent E inference post organizer s2))"

definition handleInstagramPost ::
  "env \<Rightarrow> InstagramEventOrganizer \<Rightarrow> InstagramApiPost \<Rightarrow> state
     \<Rightarrow> (error + InstagramEvent option) \<times> state" where
  "handleInstagramPost E organizer apiPost s =
     (case persistPostNoneIfPresent organizer apiPost s of
        (Inl e, s1) \<Rightarrow> (Inl e, s1)
      | (Inr None, s1) \<Rightarrow> (Inr None, s1)
      | (Inr (Some dbPost), s1) \<Rightarrow>
          (case extractEventFromPost E organizer dbPost s1 of
             (Inl e, s2) \<Rightarrow> (Inl e, s2)
           | (Inr None, s2) \<Rightarrow> (Inr None, s2)
           | (Inr (Some maybeEvent), s2) \<Rightarrow> (Inr (Some maybeEvent), s2)))"

definition rateLimitHit :: "AppUsage \<Rightarrow> bool" where
  "rateLimitHit appUsage \<longleftrightarrow>
     call_count appUsage \<ge> 100 \<or> total_cputime appUsage \<ge> 100 \<or> total_time appUsage \<ge> 100"

definition fetchPosts ::
  "env \<Rightarrow> InstagramEventOrganizer \<Rightarrow> state \<Rightarrow> (error + InstagramApiPost list) \<times> state" where
  "fetchPosts E organizer s =
     (case fetch E (username organizer) of
        Inl msg \<Rightarrow> (Inl (Rejected msg), s)
      | Inr response \<Rightarrow>
          (case (case x_app_usage response of
                   None \<Rightarrow> Inr s
                 | Some appUsage \<Rightarrow>
                     if rateLimitHit appUsage
                     then Inl (RateLimitError (call_count appUsage) (total_cputime appUsage)
                                 (total_time appUsage))
                     else Inr (writeLog (LogDebugRateLimit (username organizer)) s)) of
             Inl e \<Rightarrow> (Inl e, s)
           | Inr s1 \<Rightarrow>
               (case json response of
                  Inl msg \<Rightarrow> (Inl (Rejected msg), s1)
                | Inr responseBody \<Rightarrow>
                    (case body_error responseBody of
                       Some message \<Rightarrow> (Inl (Error message), s1)
                     | None \<Rightarrow>
                         (case media_data responseBody of
                            None \<Rightarrow> (Inl TypeError, s1)
                          | Some data \<Rightarrow> (Inr data, s1))))))"

text \<open>
  \<^verbatim>\<open>posts.map(post => handleInstagramPost(organizer, post))\<close> starts the handler of
  every post, and a handler that rejects does not stop the others. The handlers are run
  here one after the other, in the order of the list, each to its end.
\<close>

fun handlePosts ::
  "env \<Rightarrow> InstagramEventOrganizer \<Rightarrow> InstagramApiPost list \<Rightarrow> state
     \<Rightarrow> (error + InstagramEvent option) list \<times> state" where
  "handlePosts E organizer [] s = ([], s)"
| "handlePosts E organizer (post # rest) s =
     (case handleInstagramPost E organizer post s of
        (r, s1) \<Rightarrow> (case handlePosts E organizer rest s1 of (rs, s2) \<Rightarrow> (r # rs, s2)))"

fun presentEvents :: "InstagramEvent option list \<Rightarrow> InstagramEvent list" where
  "presentEvents [] = []"
| "presentEvents (None # rest) = presentEvents rest"
| "presentEvents (Some maybeEvent # rest) = maybeEvent # presentEvents rest"

definition ingestEventsForOrganizer ::
  "env \<Rightarrow> InstagramEventOrganizer \<Rightarrow> state \<Rightarrow> InstagramEvent list \<times> state" where
  "ingestEventsForOrganizer E organizer s =
     (case fetchPosts E organizer s of
        (Inl e, s1) \<Rightarrow> ([], writeLog (LogErrorIngesting e (username organizer)) s1)
      | (Inr fetched, s1) \<Rightarrow>
          (case handlePosts E organizer fetched s1 of
             (results, s2) \<Rightarrow>
               (case promiseAll results of
                  Inl e \<Rightarrow> ([], writeLog (LogErrorIngesting e (username organizer)) s2)
                | Inr maybeEvents \<Rightarrow> (presentEvents maybeEvents, s2))))"

text \<open>The id of a new organizer is the next number of the table.\<close>

definition getOrInsertOrganizer :: "InstagramSource \<Rightarrow> state \<Rightarrow> InstagramEventOrganizer \<times> state" where
  "getOrInsertOrganizer source s =
     (case find (\<lambda>organizer. username organizer = source_username source) (organizers s) of
        Some organizer \<Rightarrow> (organizer, s)
      | None \<Rightarrow>
          (let organizer =
                 \<lparr> organizer_id = int (length (organizers s)) + 1,
                   username = source_username source,
                   city = source_city source,
                   contextClues = join '' '' (context_clues source),
                   lastUpdated = 0 \<rparr>
           in (organizer, s\<lparr>organizers := organizers s @ [organizer]\<rparr>)))"

text \<open>\<^verbatim>\<open>filtered\<close> is an array, so \<^verbatim>\<open>!filtered\<close> never holds; with no source of that
  name \<^verbatim>\<open>filtered[0]\<close> is undefined and reading its user name throws.\<close>

definition scrapeInstagramEventsForUser ::
  "env \<Rightarrow> InstagramSource list \<Rightarrow> string \<Rightarrow> state \<Rightarrow> (error + unit) \<times> state" where
  "scrapeInstagramEventsForUser E sources user s =
     (let s0 = writeLog (LogInfoStartUser user) s;
          filtered = filter (\<lambda>source. source_username source = user) sources
      in case filtered of
           [] \<Rightarrow> (Inl TypeError, s0)
         | source # _ \<Rightarrow>
             (case getOrInsertOrganizer source s0 of
                (organizer, s1) \<Rightarrow>
                  (case ingestEventsForOrganizer E organizer s1 of
                     (evs, s2) \<Rightarrow>
                       (Inr (), writeLog (LogInfoCompletedUser (length evs) user) s2))))"

fun countsBySource ::
  "env \<Rightarrow> InstagramSource list \<Rightarrow> state \<Rightarrow> (string \<times> nat) list \<times> state" where
  "countsBySource E [] s = ([], s)"
| "countsBySource E (source # rest) s =
     (case getOrInsertOrganizer source s of
        (organizer, s1) \<Rightarrow>
          (case ingestEventsForOrganizer E organizer s1 of
             (evs, s2) \<Rightarrow>
               (case countsBySource E rest s2 of
                  (counts, s3) \<Rightarrow> ((source_username source, length evs) # counts, s3))))"

definition scrapeAllInstagramEvents ::
  "env \<Rightarrow> InstagramSource list \<Rightarrow> state \<Rightarrow> (string \<times> nat) list \<times> state" where
  "scrapeAllInstagramEvents E sources s =
     (case countsBySource E sources (writeLog LogInfoStart s) of
        (counts, s1) \<Rightarrow> (counts, writeLog (LogInfoCompleted counts) s1))"

section \<open>Fixup\<close>

text \<open>
  \<^verbatim>\<open>FoundPosts\<close> is an object indexed by organizer id. \<^verbatim>\<open>Object.values\<close> lists the
  entries of an object in the order of its keys: first the keys that are array indices
  (integers from 0 to \<open>2\<^sup>3\<^sup>2 - 2\<close>), ascending, then the other keys in the order in
  which they were added. The entries are kept in that order; an assignment to a key
  that is there replaces the value where it is.
\<close>

type_synonym FoundPosts = "(int \<times> InstagramEventOrganizer \<times> InstagramPost list) list"

definition isArrayIndex :: "int \<Rightarrow> bool" where
  "isArrayIndex k \<longleftrightarrow> 0 \<le> k \<and> k < 4294967295"

fun assign ::
  "int \<Rightarrow> InstagramEventOrganizer \<times> InstagramPost list \<Rightarrow> FoundPosts \<Rightarrow> FoundPosts" where
  "assign k v [] = [(k, v)]"
| "assign k v ((k', v') # rest) =
     (if k = k' then (k, v) # rest
      else if isArrayIndex k \<and> (\<not> isArrayIndex k' \<or> k < k') then (k, v) # (k', v') # rest
      else (k', v') # assign k v rest)"

fun pushPosts :: "InstagramPost list \<Rightarrow> FoundPosts \<Rightarrow> error + FoundPosts" where
  "pushPosts [] organizersById = Inr organizersById"
| "pushPosts (post # rest) organizersById =
     (case map_of organizersById (organizerId post) of
        None \<Rightarrow> Inl TypeError
      | Some (organization, found) \<Rightarrow>
          pushPosts rest (assign (organizerId post) (organization, found @ [post]) organizersById))"

text \<open>\<^verbatim>\<open>findPosts(eventsWhere)\<close>; \<open>eventsWhere\<close> is the filter of the query.\<close>

definition findPosts :: "(InstagramPost \<Rightarrow> bool) \<Rightarrow> state \<Rightarrow> error + FoundPosts" where
  "findPosts eventsWhere s =
     pushPosts (filter eventsWhere (posts s))
       (fold (\<lambda>organization. assign (organizer_id organization) (organization, []))
          (organizers s) [])"

fun extractPosts ::
  "env \<Rightarrow> InstagramEventOrganizer \<Rightarrow> InstagramPost list \<Rightarrow> state
     \<Rightarrow> (error + InstagramEvent option) list \<times> state" where
  "extractPosts E organization [] s = ([], s)"
| "extractPosts E organization (post # rest) s =
     (case extractEventFromPost E organization post s of
        (r, s1) \<Rightarrow> (case extractPosts E organization rest s1 of (rs, s2) \<Rightarrow> (r # rs, s2)))"

fun extractGroups ::
  "env \<Rightarrow> (InstagramEventOrganizer \<times> InstagramPost list) list \<Rightarrow> state \<Rightarrow> state" where
  "extractGroups E [] s = s"
| "extractGroups E ((organization, found) # rest) s =
     extractGroups E rest (snd (extractPosts E organization found s))"

text \<open>
  The function does not await the joint promise: it returns once \<^verbatim>\<open>findPosts\<close> has,
  and rejections of the extractions are handled nowhere. The state returned is the one
  reached when every extraction has settled.
\<close>

definition fixupInstagramIngestion :: "env \<Rightarrow> state \<Rightarrow> (error + unit) \<times> state" where
  "fixupInstagramIngestion E s =
     (case findPosts (\<lambda>post. completedAt post = None) s of
        Inl e \<Rightarrow> (Inl e, s)
      | Inr incomplete \<Rightarrow> (Inr (), extractGroups E (map snd incomplete) s))"

section \<open>Auxiliary notions\<close>

text \<open>The day count splits into the days before a year that begins in March and the
  days before a month of that year; the lemmas on the calendar use the two parts.\<close>

definition gregorian :: "int \<Rightarrow> int" where
  "gregorian y = 365 * y + y div 4 - y div 100 + y div 400"

definition dayOfMarchYear :: "int \<Rightarrow> int" where
  "dayOfMarchYear mp = (153 * mp + 2) div 5"

text \<open>The URLs that the extraction of one post sends to text detection.\<close>

definition requested :: "env \<Rightarrow> InstagramPost \<Rightarrow> string list" where
  "requested E post =
     (if visionPrivateKey E \<and> visionClientEmail E
      then (case mediaUrlsJson post of None \<Rightarrow> [] | Some urls \<Rightarrow> urls) else [])"

section \<open>Example data\<close>

text \<open>The candidate of the spec's scenario: live music on 29 December 2023, from 20:00
  to 22:00, with no end year.\<close>

definition liveMusic :: ParsedObject where
  "liveMusic =
     \<lparr> p_isEvent = Present (Some True),
       p_title = Present (Some ''Live Music''),
       p_startHourMilitaryTime = Present (Some 20),
       p_endHourMilitaryTime = Present (Some 22),
       p_isPastEvent = Present (Some False),
       p_hasStartHourInPost = Present (Some True),
       p_startMinute = Present (Some 0),
       p_endMinute = Present (Some 0),
       p_startDay = Present (Some 29),
       p_endDay = Present (Some 29),
       p_startMonth = Present (Some 12),
       p_endMonth = Present (Some 12),
       p_startYear = Present (Some 2023),
       p_endYear = Present None \<rparr>"

text \<open>New Year's Eve 2024 into January, with no end year.\<close>

definition newYearsEve :: ParsedObject where
  "newYearsEve =
     liveMusic\<lparr> p_startDay := Present (Some 31), p_endDay := Present (Some 1),
                p_endMonth := Present (Some 1), p_startYear := Present (Some 2024) \<rparr>"

text \<open>A start at 23:00 with no end hour.\<close>

definition lateShow :: ParsedObject where
  "lateShow =
     liveMusic\<lparr> p_startHourMilitaryTime := Present (Some 23),
                p_endHourMilitaryTime := Present None \<rparr>"

text \<open>The sanitized result of the scenario, and two variants of it: one that ends at
  10:00, before it starts, and one that the inference marks as past.\<close>

definition liveMusicResult :: OpenAiInstagramResult where
  "liveMusicResult = postProcessing 2023 (asResult liveMusic)"

definition earlyEnd :: OpenAiInstagramResult where
  "earlyEnd =
     postProcessing 2023 (asResult (liveMusic\<lparr> p_endHourMilitaryTime := Present (Some 10) \<rparr>))"

definition pastEvent :: OpenAiInstagramResult where
  "pastEvent =
     postProcessing 2023 (asResult (liveMusic\<lparr> p_isPastEvent := Present (Some True) \<rparr>))"

text \<open>Pacific Standard Time, the offset of America/Los_Angeles in December.\<close>

definition pacificStandard :: "int \<Rightarrow> int" where
  "pacificStandard ts = - 28800000"

definition winter2023 :: clock where
  "winter2023 =
     \<lparr> nowYear = 2023, nowMonth = 12, nowDate = 1703500000000, zone = pacificStandard \<rparr>"

text \<open>
  The zone around the change to daylight saving time of 10 March 2024: eight hours
  behind UTC for the wall-clock times before 03:00 of that day, and seven hours from
  then on. The event of that night goes from 01:00 to 04:00.
\<close>

definition pacificSpring2024 :: "int \<Rightarrow> int" where
  "pacificSpring2024 ts = (if ts < 1710039600000 then - 28800000 else - 25200000)"

definition spring2024 :: clock where
  "spring2024 =
     \<lparr> nowYear = 2024, nowMonth = 3, nowDate = 1709900000000, zone = pacificSpring2024 \<rparr>"

definition springNight :: OpenAiInstagramResult where
  "springNight =
     postProcessing 2024
       (asResult (liveMusic\<lparr> p_startHourMilitaryTime := Present (Some 1),
                             p_endHourMilitaryTime := Present (Some 4),
                             p_startDay := Present (Some 10), p_endDay := Present (Some 10),
                             p_startMonth := Present (Some 3), p_endMonth := Present (Some 3),
                             p_startYear := Present (Some 2024) \<rparr>))"

definition demoOrganizer :: InstagramEventOrganizer where
  "demoOrganizer =
     \<lparr> organizer_id = 1, username = ''demo_user'', city = ''Oakland'',
       contextClues = ''live music'', lastUpdated = 0 \<rparr>"

definition demoPost :: InstagramPost where
  "demoPost =
     \<lparr> post_id = ''p1'', url = ''https://www.instagram.com/p/p1'', organizerId = 1,
       caption = Some ''Join us Friday!'', postDate = ''2023-12-25T18:00:00+0000'',
       mediaUrlsJson = Some [''https://cdn.example/p1.jpg''], completedAt = None \<rparr>"

definition storeWithPost :: state where
  "storeWithPost =
     \<lparr> organizers = [demoOrganizer], posts = [demoPost], events = [], ocrRequests = [],
       logged = [] \<rparr>"

definition emptyStore :: state where
  "emptyStore =
     \<lparr> organizers = [demoOrganizer], posts = [], events = [], ocrRequests = [], logged = [] \<rparr>"

text \<open>Two posts of the account: the one of the scenario, and a video for which the
  inference leaves the title out.\<close>

definition apiPost1 :: InstagramApiPost where
  "apiPost1 =
     \<lparr> api_id = ''p1'', permalink = ''https://www.instagram.com/p/p1'',
       api_caption = Some ''Join us Friday!'', timestamp = ''2023-12-25T18:00:00+0000'',
       media_type = ''IMAGE'', media_url = Some ''https://cdn.example/p1.jpg'',
       children = None \<rparr>"

definition apiPost2 :: InstagramApiPost where
  "apiPost2 =
     \<lparr> api_id = ''p2'', permalink = ''https://www.instagram.com/p/p2'',
       api_caption = None, timestamp = ''2023-12-26T18:00:00+0000'',
       media_type = ''VIDEO'', media_url = None, children = None \<rparr>"

definition demoResponse :: Response where
  "demoResponse =
     \<lparr> x_app_usage = Some \<lparr> call_count = 28, total_cputime = 25, total_time = 25 \<rparr>,
       json = Inr \<lparr> body_error = None, media_data = Some [apiPost2, apiPost1] \<rparr> \<rparr>"

definition busyResponse :: Response where
  "busyResponse =
     demoResponse\<lparr> x_app_usage := Some \<lparr> call_count = 100, total_cputime = 25, total_time = 25 \<rparr> \<rparr>"

text \<open>The collaborators of the examples. The prompt of a post is its id, the service
  answers with the id in braces, and the parser reads the answer for \<^verbatim>\<open>p2\<close> as the
  scenario's object without its title and every other answer as the scenario's object.\<close>

definition demoEnv :: env where
  "demoEnv =
     \<lparr> nowYear = 2023, nowMonth = 12, nowDate = 1703500000000, zone = pacificStandard,
       fetch = (\<lambda>user. if user = ''demo_user'' then Inr demoResponse
                        else if user = ''busy_user'' then Inr busyResponse
                        else Inl ''no such account''),
       visionPrivateKey = True,
       visionClientEmail = True,
       textDetection = (\<lambda>u. Inr \<lparr> textAnnotations = Some [''Live''],
                                 fullTextAnnotation = Some ''Live Music 8pm-10pm Friday Dec 29'' \<rparr>),
       instagramInitialPrompt = (\<lambda>organizer post ocrResult. post_id post),
       executePrompt = (\<lambda>prompt. Inr (Some (''{'' @ prompt @ ''}''))),
       parse = (\<lambda>text. if text = ''{p2}'' then Some (liveMusic\<lparr> p_title := Absent \<rparr>)
                        else Some liveMusic) \<rparr>"

definition demoSources :: "InstagramSource list" where
  "demoSources =
     [\<lparr> source_username = ''busy_user'', source_city = ''Oakland'', context_clues = [] \<rparr>,
      \<lparr> source_username = ''demo_user'', source_city = ''Oakland'',
        context_clues = [''live'', ''music''] \<rparr>]"

text \<open>An inference service that gives the same answer to every prompt: some words,
  then the text that the parser reads as the object without a title.\<close>

definition titlelessEnv :: env where
  "titlelessEnv = demoEnv\<lparr> executePrompt := (\<lambda>prompt. Inr (Some ''Here you go: {p2}'')) \<rparr>"

text \<open>The organizer of the account whose usage signal is at the limit.\<close>

definition busyOrganizer :: InstagramEventOrganizer where
  "busyOrganizer = demoOrganizer\<lparr> organizer_id := 2, username := ''busy_user'' \<rparr>"

section \<open>Field completion\<close>

text \<open>What each post-processing statement does to each field.\<close>

lemma asResult_fields:
  "isEvent (asResult object) = getProp (p_isEvent object)"
  "title (asResult object) = getProp (p_title object)"
  "startHourMilitaryTime (asResult object) = getProp (p_startHourMilitaryTime object)"
  "endHourMilitaryTime (asResult object) = getProp (p_endHourMilitaryTime object)"
  "isPastEvent (asResult object) = getProp (p_isPastEvent object)"
  "hasStartHourInPost (asResult object) = getProp (p_hasStartHourInPost object)"
  "startMinute (asResult object) = getProp (p_startMinute object)"
  "endMinute (asResult object) = getProp (p_endMinute object)"
  "startDay (asResult object) = getProp (p_startDay object)"
  "endDay (asResult object) = getProp (p_endDay object)"
  "startMonth (asResult object) = getProp (p_startMonth object)"
  "endMonth (asResult object) = getProp (p_endMonth object)"
  "startYear (asResult object) = getProp (p_startYear object)"
  "endYear (asResult object) = getProp (p_endYear object)"
  by (simp_all add: asResult_def)

lemma fillStartYear_fields:
  "isEvent (fillStartYear fullYear object) = isEvent object"
  "title (fillStartYear fullYear object) = title object"
  "startHourMilitaryTime (fillStartYear fullYear object) = startHourMilitaryTime object"
  "endHourMilitaryTime (fillStartYear fullYear object) = endHourMilitaryTime object"
  "isPastEvent (fillStartYear fullYear object) = isPastEvent object"
  "hasStartHourInPost (fillStartYear fullYear object) = hasStartHourInPost object"
  "startMinute (fillStartYear fullYear object) = startMinute object"
  "endMinute (fillStartYear fullYear object) = endMinute object"
  "startDay (fillStartYear fullYear object) = startDay object"
  "endDay (fillStartYear fullYear object) = endDay object"
  "startMonth (fillStartYear fullYear object) = startMonth object"
  "endMonth (fillStartYear fullYear object) = endMonth object"
  "startYear (fillStartYear fullYear object) =
       (if startYear object = None then Some fullYear else startYear object)"
  "endYear (fillStartYear fullYear object) = endYear object"
  by (simp_all add: fillStartYear_def Let_def)

lemma fillEndYear_fields:
  "isEvent (fillEndYear object) = isEvent object"
  "title (fillEndYear object) = title object"
  "startHourMilitaryTime (fillEndYear object) = startHourMilitaryTime object"
  "endHourMilitaryTime (fillEndYear object) = endHourMilitaryTime object"
  "isPastEvent (fillEndYear object) = isPastEvent object"
  "hasStartHourInPost (fillEndYear object) = hasStartHourInPost object"
  "startMinute (fillEndYear object) = startMinute object"
  "endMinute (fillEndYear object) = endMinute object"
  "startDay (fillEndYear object) = startDay object"
  "endDay (fillEndYear object) = endDay object"
  "startMonth (fillEndYear object) = startMonth object"
  "endMonth (fillEndYear object) = endMonth object"
  "startYear (fillEndYear object) = startYear object"
  "endYear (fillEndYear object) =
       (if endYear object = None then startYear object else endYear object)"
  by (simp_all add: fillEndYear_def Let_def)

lemma fillStartMinute_fields:
  "isEvent (fillStartMinute object) = isEvent object"
  "title (fillStartMinute object) = title object"
  "startHourMilitaryTime (fillStartMinute object) = startHourMilitaryTime object"
  "endHourMilitaryTime (fillStartMinute object) = endHourMilitaryTime object"
  "isPastEvent (fillStartMinute object) = isPastEvent object"
  "hasStartHourInPost (fillStartMinute object) = hasStartHourInPost object"
  "startMinute (fillStartMinute object) =
       (if startMinute object = None then Some 0 else startMinute object)"
  "endMinute (fillStartMinute object) = endMinute object"
  "startDay (fillStartMinute object) = startDay object"
  "endDay (fillStartMinute object) = endDay object"
  "startMonth (fillStartMinute object) = startMonth object"
  "endMonth (fillStartMinute object) = endMonth object"
  "startYear (fillStartMinute object) = startYear object"
  "endYear (fillStartMinute object) = endYear object"
  by (simp_all add: fillStartMinute_def Let_def)

lemma fillEndMinute_fields:
  "isEvent (fillEndMinute object) = isEvent object"
  "title (fillEndMinute object) = title object"
  "startHourMilitaryTime (fillEndMinute object) = startHourMilitaryTime object"
  "endHourMilitaryTime (fillEndMinute object) = endHourMilitaryTime object"
  "isPastEvent (fillEndMinute object) = isPastEvent object"
  "hasStartHourInPost (fillEndMinute object) = hasStartHourInPost object"
  "startMinute (fillEndMinute object) = startMinute object"
  "endMinute (fillEndMinute object) =
       (if endMinute object = None then Some 0 else endMinute object)"
  "startDay (fillEndMinute object) = startDay object"
  "endDay (fillEndMinute object) = endDay object"
  "startMonth (fillEndMinute object) = startMonth object"
  "endMonth (fillEndMinute object) = endMonth object"
  "startYear (fillEndMinute object) = startYear object"
  "endYear (fillEndMinute object) = endYear object"
  by (simp_all add: fillEndMinute_def Let_def)

lemma rolloverYear_fields:
  "isEvent (rolloverYear object) = isEvent object"
  "title (rolloverYear object) = title object"
  "startHourMilitaryTime (rolloverYear object) = startHourMilitaryTime object"
  "endHourMilitaryTime (rolloverYear object) = endHourMilitaryTime object"
  "isPastEvent (rolloverYear object) = isPastEvent object"
  "hasStartHourInPost (rolloverYear object) = hasStartHourInPost object"
  "startMinute (rolloverYear object) = startMinute object"
  "endMinute (rolloverYear object) = endMinute object"
  "startDay (rolloverYear object) = startDay object"
  "endDay (rolloverYear object) = endDay object"
  "startMonth (rolloverYear object) = startMonth object"
  "endMonth (rolloverYear object) = endMonth object"
  "startYear (rolloverYear object) = startYear object"
  "endYear (rolloverYear object) =
       (if startMonth object = Some 12 \<and> endMonth object = Some 1
        then Some (toNumber (startYear object) + 1) else endYear object)"
  by (simp_all add: rolloverYear_def Let_def)

lemma fillEndMonth_fields:
  "isEvent (fillEndMonth object) = isEvent object"
  "title (fillEndMonth object) = title object"
  "startHourMilitaryTime (fillEndMonth object) = startHourMilitaryTime object"
  "endHourMilitaryTime (fillEndMonth object) = endHourMilitaryTime object"
  "isPastEvent (fillEndMonth object) = isPastEvent object"
  "hasStartHourInPost (fillEndMonth object) = hasStartHourInPost object"
  "startMinute (fillEndMonth object) = startMinute object"
  "endMinute (fillEndMonth object) = endMinute object"
  "startDay (fillEndMonth object) = startDay object"
  "endDay (fillEndMonth object) = endDay object"
  "startMonth (fillEndMonth object) = startMonth object"
  "endMonth (fillEndMonth object) =
       (if endMonth object = None then startMonth object else endMonth object)"
  "startYear (fillEndMonth object) = startYear object"
  "endYear (fillEndMonth object) = endYear object"
  by (simp_all add: fillEndMonth_def Let_def)

lemma fillEndDay_fields:
  "isEvent (fillEndDay object) = isEvent object"
  "title (fillEndDay object) = title object"
  "startHourMilitaryTime (fillEndDay object) = startHourMilitaryTime object"
  "endHourMilitaryTime (fillEndDay object) = endHourMilitaryTime object"
  "isPastEvent (fillEndDay object) = isPastEvent object"
  "hasStartHourInPost (fillEndDay object) = hasStartHourInPost object"
  "startMinute (fillEndDay object) = startMinute object"
  "endMinute (fillEndDay object) = endMinute object"
  "startDay (fillEndDay object) = startDay object"
  "endDay (fillEndDay object) =
       (if endDay object = None then startDay object else endDay object)"
  "startMonth (fillEndDay object) = startMonth object"
  "endMonth (fillEndDay object) = endMonth object"
  "startYear (fillEndDay object) = startYear object"
  "endYear (fillEndDay object) = endYear object"
  by (simp_all add: fillEndDay_def Let_def)

lemma fillEndHour_fields:
  "isEvent (fillEndHour object) = isEvent object"
  "title (fillEndHour object) = title object"
  "startHourMilitaryTime (fillEndHour object) = startHourMilitaryTime object"
  "endHourMilitaryTime (fillEndHour object) =
       (if endHourMilitaryTime object = None
        then (if toNumber (startHourMilitaryTime object) + 2 > 23
              then Some (toNumber (startHourMilitaryTime object) + 2 - 24)
              else Some (toNumber (startHourMilitaryTime object) + 2))
        else endHourMilitaryTime object)"
  "isPastEvent (fillEndHour object) = isPastEvent object"
  "hasStartHourInPost (fillEndHour object) = hasStartHourInPost object"
  "startMinute (fillEndHour object) = startMinute object"
  "endMinute (fillEndHour object) = endMinute object"
  "startDay (fillEndHour object) = startDay object"
  "endDay (fillEndHour object) =
       (if endHourMilitaryTime object = None \<and> toNumber (startHourMilitaryTime object) + 2 > 23
        then Some (toNumber (startDay object) + 1) else endDay object)"
  "startMonth (fillEndHour object) = startMonth object"
  "endMonth (fillEndHour object) = endMonth object"
  "startYear (fillEndHour object) = startYear object"
  "endYear (fillEndHour object) = endYear object"
  by (simp_all add: fillEndHour_def Let_def)

lemmas completion_fields = asResult_fields fillStartYear_fields fillEndYear_fields
  fillStartMinute_fields fillEndMinute_fields rolloverYear_fields fillEndMonth_fields
  fillEndDay_fields fillEndHour_fields

text \<open>
  C4. A candidate with \<^verbatim>\<open>startMonth = 12\<close>, \<^verbatim>\<open>endMonth = 1\<close>,
  \<^verbatim>\<open>startYear = 2024\<close> and \<^verbatim>\<open>endYear = null\<close> is completed to
  \<^verbatim>\<open>endYear = 2025\<close>: the copy of the start year gives 2024 first, and the rollover
  statement, which comes later, overrides it.
\<close>

theorem rollover_overrides_copy:
  assumes "jsonParse (fixGeneratedJson generatedJson) = Some object"
    and "hasAllProperties object"
    and "p_startMonth object = Present (Some 12)"
    and "p_endMonth object = Present (Some 1)"
    and "p_startYear object = Present (Some 2024)"
    and "p_endYear object = Present None"
  shows "\<exists>r. postProcessOpenAiInstagramResponse jsonParse fullYear generatedJson = Inr r
           \<and> endYear r = Some 2025
           \<and> endYear (fillEndYear (fillStartYear fullYear (asResult object))) = Some 2024"
  using assms
  by (simp add: postProcessOpenAiInstagramResponse_def postProcessing_def completion_fields)

theorem rollover_overrides_copy_witness:
  "\<exists>r. postProcessOpenAiInstagramResponse (\<lambda>text. Some newYearsEve) 2026 ''{}'' = Inr r
     \<and> endYear r = Some 2025
     \<and> endYear (fillEndYear (fillStartYear 2026 (asResult newYearsEve))) = Some 2024"
  using rollover_overrides_copy [of "\<lambda>text. Some newYearsEve" "''{}''" newYearsEve 2026]
  by (simp add: newYearsEve_def liveMusic_def hasAllProperties_def)

text \<open>
  C5. A candidate with \<^verbatim>\<open>startHourMilitaryTime = 23\<close> and a \<^verbatim>\<open>null\<close> end hour is
  completed to the end hour 1 (23 + 2 exceeds 23, so 24 is subtracted) and to the end
  day \<^verbatim>\<open>startDay + 1\<close>, in plain integer arithmetic; a \<^verbatim>\<open>null\<close> start day counts
  as 0 in the sum.
\<close>

theorem late_start_carries_day:
  assumes "jsonParse (fixGeneratedJson generatedJson) = Some object"
    and "hasAllProperties object"
    and "p_startHourMilitaryTime object = Present (Some 23)"
    and "p_endHourMilitaryTime object = Present None"
    and "p_startDay object = Present day"
  shows "\<exists>r. postProcessOpenAiInstagramResponse jsonParse fullYear generatedJson = Inr r
           \<and> endHourMilitaryTime r = Some 1
           \<and> endDay r = Some (toNumber day + 1)"
  using assms
  by (simp add: postProcessOpenAiInstagramResponse_def postProcessing_def completion_fields)

theorem late_start_carries_day_witness:
  "\<exists>r. postProcessOpenAiInstagramResponse (\<lambda>text. Some lateShow) 2026 ''{}'' = Inr r
     \<and> endHourMilitaryTime r = Some 1
     \<and> endDay r = Some 30"
  using late_start_carries_day [of "\<lambda>text. Some lateShow" "''{}''" lateShow "Some 29" 2026]
  by (simp add: lateShow_def liveMusic_def hasAllProperties_def)

section \<open>The calendar\<close>

lemma div4_split: "(y::int) div 4 = 100 * (y div 400) + (y mod 400) div 4"
proof -
  have a: "y div 400 = y div 4 div 100" using zdiv_zmult2_eq [of 100 y 4] by simp
  have b: "y mod 400 = 4 * (y div 4 mod 100) + y mod 4" using zmod_zmult2_eq [of 100 y 4] by simp
  have c: "(4 * (y div 4 mod 100) + y mod 4) div 4 = y div 4 mod 100" by simp
  show ?thesis unfolding a b c by simp
qed

lemma div100_split: "(y::int) div 100 = 4 * (y div 400) + (y mod 400) div 100"
proof -
  have a: "y div 400 = y div 100 div 4" using zdiv_zmult2_eq [of 4 y 100] by simp
  have b: "y mod 400 = 100 * (y div 100 mod 4) + y mod 100" using zmod_zmult2_eq [of 4 y 100] by simp
  have c: "(100 * (y div 100 mod 4) + y mod 100) div 100 = y div 100 mod 4" by simp
  show ?thesis unfolding a b c by simp
qed

lemma daysFromCivil_gregorian:
  "daysFromCivil y m d =
     gregorian (if m \<le> 2 then y - 1 else y) + dayOfMarchYear (if m > 2 then m - 3 else m + 9)
       + d - 719469"
proof -
  have g: "gregorian z = z div 400 * 146097 + ((z - z div 400 * 400) * 365
      + (z - z div 400 * 400) div 4 - (z - z div 400 * 400) div 100)" for z
  proof -
    have m: "z - z div 400 * 400 = z mod 400" by (simp add: minus_div_mult_eq_mod)
    have e: "z = 400 * (z div 400) + z mod 400" by simp
    show ?thesis unfolding m gregorian_def div4_split [of z] div100_split [of z]
      using e by linarith
  qed
  show ?thesis
    unfolding daysFromCivil_def Let_def g dayOfMarchYear_def by simp
qed

lemma div_step:
  assumes "0 < (n::int)"
  shows "(y + 1) div n = y div n + (if (y + 1) mod n = 0 then 1 else 0)"
proof (cases "y mod n = n - 1")
  case True
  have "n * (y div n) + y mod n = y" by (rule mult_div_mod_eq)
  then have e: "y + 1 = n * (y div n + 1) + 0"
    unfolding True by (simp only: distrib_left mult_1_right)
  have z: "(0::int) \<le> 0" by simp
  have "(y + 1) div n = y div n + 1" by (rule int_div_pos_eq [OF e z assms])
  moreover have "(y + 1) mod n = 0" by (rule int_mod_pos_eq [OF e z assms])
  ultimately show ?thesis by (simp only: refl if_True)
next
  case False
  have r0: "0 \<le> y mod n" using assms by simp
  have r1: "y mod n < n" using assms by simp
  have "n * (y div n) + y mod n = y" by (rule mult_div_mod_eq)
  then have e: "y + 1 = n * (y div n) + (y mod n + 1)" by linarith
  have a: "0 \<le> y mod n + 1" using r0 by linarith
  have b: "y mod n + 1 < n" using r1 False by linarith
  have "(y + 1) div n = y div n" by (rule int_div_pos_eq [OF e a b])
  moreover have m: "(y + 1) mod n = y mod n + 1" by (rule int_mod_pos_eq [OF e a b])
  moreover have "y mod n + 1 \<noteq> 0" using r0 by linarith
  ultimately show ?thesis by (simp only: if_False add_0_right)
qed
lemma mod100_4: "(z::int) mod 100 = 0 \<Longrightarrow> z mod 4 = 0"
proof -
  assume "z mod 100 = 0"
  then have "100 dvd z" by (rule mod_0_imp_dvd)
  moreover have "(4::int) dvd 100" by simp
  ultimately have "4 dvd z" by (meson dvd_trans)
  then show ?thesis by simp
qed
lemma mod400_100: "(z::int) mod 400 = 0 \<Longrightarrow> z mod 100 = 0"
proof -
  assume "z mod 400 = 0"
  then have "400 dvd z" by (rule mod_0_imp_dvd)
  moreover have "(100::int) dvd 400" by simp
  ultimately have "100 dvd z" by (meson dvd_trans)
  then show ?thesis by simp
qed

lemma gregorian_step:
  "gregorian (y + 1) = gregorian y + 365 + (if isLeapYear (y + 1) then 1 else 0)"
proof -
  have s4: "(y + 1) div 4 = y div 4 + (if (y + 1) mod 4 = 0 then 1 else 0)" by (rule div_step) simp
  have s100: "(y + 1) div 100 = y div 100 + (if (y + 1) mod 100 = 0 then 1 else 0)" by (rule div_step) simp
  have s400: "(y + 1) div 400 = y div 400 + (if (y + 1) mod 400 = 0 then 1 else 0)" by (rule div_step) simp
  have g: "gregorian (y + 1) = 365 * (y + 1) + (y + 1) div 4 - (y + 1) div 100 + (y + 1) div 400"
    by (simp only: gregorian_def)
  consider (a) "(y + 1) mod 400 = 0" | (b) "(y + 1) mod 400 \<noteq> 0" "(y + 1) mod 100 = 0"
    | (c) "(y + 1) mod 100 \<noteq> 0" "(y + 1) mod 4 = 0" | (d) "(y + 1) mod 4 \<noteq> 0" by blast
  then show ?thesis
  proof cases
    case a
    then have "(y + 1) mod 100 = 0" by (rule mod400_100)
    moreover from this have "(y + 1) mod 4 = 0" by (rule mod100_4)
    ultimately show ?thesis using a unfolding g s4 s100 s400 isLeapYear_def gregorian_def by simp
  next
    case b
    have "(y + 1) mod 4 = 0" using mod100_4 [of "y + 1"] b by simp
    then show ?thesis using b unfolding g s4 s100 s400 isLeapYear_def gregorian_def by simp
  next
    case c
    have "(y + 1) mod 400 \<noteq> 0" using mod400_100 [of "y + 1"] c by auto
    then show ?thesis using c unfolding g s4 s100 s400 isLeapYear_def gregorian_def by simp
  next
    case d
    have n100: "(y + 1) mod 100 \<noteq> 0" using mod100_4 [of "y + 1"] d by auto
    then have "(y + 1) mod 400 \<noteq> 0" using mod400_100 [of "y + 1"] by auto
    then show ?thesis using d n100 unfolding g s4 s100 s400 isLeapYear_def gregorian_def by simp
  qed
qed

lemma gregorian_mono_aux: "0 \<le> n \<Longrightarrow> gregorian y + 365 * n \<le> gregorian (y + n)"
proof (induction n rule: int_ge_induct)
  case base then show ?case by simp
next
  case (step i)
  have "gregorian (y + (i + 1)) = gregorian ((y + i) + 1)" by (simp only: add.assoc)
  also have "\<dots> \<ge> gregorian (y + i) + 365" using gregorian_step [of "y + i"] by simp
  finally show ?case using step by simp
qed

lemma gregorian_mono: "y \<le> y' \<Longrightarrow> gregorian y \<le> gregorian y'"
  using gregorian_mono_aux [of "y' - y" y] by simp


lemma dayOfMarchYear_mono: "p \<le> p' \<Longrightarrow> dayOfMarchYear p \<le> dayOfMarchYear p'"
  unfolding dayOfMarchYear_def by (rule zdiv_mono1) simp_all

lemma month_end:
  assumes "1 \<le> m" "m \<le> 12" "m \<noteq> 2"
  shows "dayOfMarchYear (if m > 2 then m - 3 else m + 9) + daysInMonth y m
           = dayOfMarchYear ((if m > 2 then m - 3 else m + 9) + 1)"
proof -
  have "m = 1 \<or> m = 3 \<or> m = 4 \<or> m = 5 \<or> m = 6 \<or> m = 7 \<or> m = 8 \<or> m = 9
    \<or> m = 10 \<or> m = 11 \<or> m = 12" using assms by presburger
  then show ?thesis
    by (elim disjE) (simp_all add: dayOfMarchYear_def daysInMonth_def)
qed

lemma february_end: "337 + daysInMonth y 2 + gregorian (y - 1) = gregorian y"
  using gregorian_step [of "y - 1"] by (simp add: daysInMonth_def)

lemma daysFromCivil_less:
  assumes m: "1 \<le> m" "m \<le> 12" and m': "1 \<le> m'" "m' \<le> 12"
    and d: "d \<le> daysInMonth y m" and d': "1 \<le> d'"
    and lt: "y < y' \<or> (y = y' \<and> m < m')"
  shows "daysFromCivil y m d < daysFromCivil y' m' d'"
proof -
  define Y where "Y = (if m \<le> 2 then y - 1 else y)"
  define P where "P = (if m > 2 then m - 3 else m + 9)"
  define Y' where "Y' = (if m' \<le> 2 then y' - 1 else y')"
  define P' where "P' = (if m' > 2 then m' - 3 else m' + 9)"
  have lex: "Y < Y' \<or> (Y = Y' \<and> P < P')"
    using m m' lt unfolding Y_def P_def Y'_def P'_def by (auto split: if_splits)
  have P0: "0 \<le> P'" using m' unfolding P'_def by (auto split: if_splits)
  have doy0: "0 \<le> dayOfMarchYear P'"
    using dayOfMarchYear_mono [OF P0] by (simp add: dayOfMarchYear_def)
  have lower: "gregorian Y' + dayOfMarchYear P' + 1 \<le> daysFromCivil y' m' d' + 719469"
    using d' unfolding daysFromCivil_gregorian Y'_def P'_def by simp
  have dfc: "daysFromCivil y m d + 719469 = gregorian Y + dayOfMarchYear P + d"
    unfolding daysFromCivil_gregorian Y_def P_def by simp
  show ?thesis
  proof (cases "m = 2")
    case True
    then have "Y = y - 1" "P = 11" unfolding Y_def P_def by simp_all
    then have "daysFromCivil y m d + 719469 \<le> gregorian (Y + 1)"
      using dfc d True february_end [of y] by (simp add: dayOfMarchYear_def)
    moreover have "Y < Y'" using lex \<open>P = 11\<close> m' unfolding P'_def by (auto split: if_splits)
    then have "gregorian (Y + 1) \<le> gregorian Y'" by (intro gregorian_mono) simp
    ultimately show ?thesis using lower doy0 by linarith
  next
    case False
    have up: "daysFromCivil y m d + 719469 \<le> gregorian Y + dayOfMarchYear (P + 1)"
      using dfc d month_end [OF m False, of y] unfolding P_def by linarith
    have P10: "P + 1 \<le> 11" using m False unfolding P_def by (auto split: if_splits)
    show ?thesis
    proof (cases "Y < Y'")
      case True
      have "dayOfMarchYear (P + 1) \<le> 337"
        using dayOfMarchYear_mono [OF P10] by (simp add: dayOfMarchYear_def)
      moreover have "gregorian Y + 365 \<le> gregorian (Y + 1)" using gregorian_step [of Y] by simp
      moreover have "gregorian (Y + 1) \<le> gregorian Y'" using True by (intro gregorian_mono) simp
      ultimately show ?thesis using up lower doy0 by linarith
    next
      case False
      then have Y: "Y = Y'" and P: "P + 1 \<le> P'" using lex by auto
      have "dayOfMarchYear (P + 1) \<le> dayOfMarchYear P'" using P by (rule dayOfMarchYear_mono)
      then show ?thesis using up lower unfolding Y by linarith
    qed
  qed
qed

lemma daysFromCivil_day: "daysFromCivil y m d + k = daysFromCivil y m (d + k)"
  unfolding daysFromCivil_gregorian by simp


lemma next_day_minutes:
  assumes a: "(D::int) < D'" and b: "sh * 60 + smi \<le> 1440" and c: "0 \<le> eh * 60 + emi"
  shows "(D * 24 + sh) * 60 + smi \<le> (D' * 24 + eh) * 60 + emi"
proof -
  have l: "(D * 24 + sh) * 60 + smi = D * 1440 + (sh * 60 + smi)" by (simp add: distrib_right)
  have r: "(D' * 24 + eh) * 60 + emi = D' * 1440 + (eh * 60 + emi)" by (simp add: distrib_right)
  have "D + 1 \<le> D'" using a by simp
  then have "(D + 1) * 1440 \<le> D' * 1440" by (rule mult_right_mono) simp
  then have "D * 1440 + 1440 \<le> D' * 1440" by (simp add: distrib_right)
  then show ?thesis unfolding l r using b c by linarith
qed

lemma wall_clock_order:
  assumes vs: "validUnits sy smo sd sh smi" and ve: "validUnits ey emo sd eh emi"
    and ed: "1 \<le> ed"
    and ord: "sy < ey \<or> (sy = ey \<and> (smo < emo \<or> (smo = emo \<and> (sd < ed \<or> (sd = ed \<and>
                (sh < eh \<or> (sh = eh \<and> smi \<le> emi)))))))"
  shows "objToLocalTS sy smo sd sh smi \<le> objToLocalTS ey emo sd eh emi + (ed - sd) * 86400000"
proof -
  define D where "D = daysFromCivil sy smo sd"
  define D' where "D' = daysFromCivil ey emo sd + (ed - sd)"
  have D': "D' = daysFromCivil ey emo ed" unfolding D'_def daysFromCivil_day by simp
  have s: "sh * 60 + smi \<le> 1440" "0 \<le> eh * 60 + emi"
    using vs ve unfolding validUnits_def by auto
  have e: "objToLocalTS ey emo sd eh emi + (ed - sd) * 86400000 = ((D' * 24 + eh) * 60 + emi) * 60000"
    unfolding objToLocalTS_def D'_def by (simp add: algebra_simps)
  have b: "objToLocalTS sy smo sd sh smi = ((D * 24 + sh) * 60 + smi) * 60000"
    unfolding objToLocalTS_def D_def by simp
  consider (month) "sy < ey \<or> (sy = ey \<and> smo < emo)"
    | (day) "sy = ey" "smo = emo" "sd < ed"
    | (time) "sy = ey" "smo = emo" "sd = ed" "sh < eh \<or> (sh = eh \<and> smi \<le> emi)"
    using ord by blast
  then show ?thesis
  proof cases
    case month
    have "D < D'" unfolding D_def D'
      using vs ve ed month by (intro daysFromCivil_less) (simp_all add: validUnits_def)
    then have "(D * 24 + sh) * 60 + smi \<le> (D' * 24 + eh) * 60 + emi"
      using s by (rule next_day_minutes)
    then show ?thesis unfolding e b by simp
  next
    case day
    then have "D < D'" unfolding D_def D'_def by simp
    then have "(D * 24 + sh) * 60 + smi \<le> (D' * 24 + eh) * 60 + emi"
      using s by (rule next_day_minutes)
    then show ?thesis unfolding e b by simp
  next
    case time
    then have "D = D'" unfolding D_def D'_def by simp
    moreover have "sh * 60 + smi \<le> eh * 60 + emi"
      using time(4) vs ve unfolding validUnits_def by auto
    ultimately show ?thesis unfolding e b by simp
  qed
qed

section \<open>Properties of \<^verbatim>\<open>persistEvent\<close>\<close>

lemma persistEvent_events:
  "events (snd (persistEvent c inference post organizer s)) =
     (if acceptanceGate inference then events s @ [newEvent c inference post organizer] else events s)"
  by (simp add: persistEvent_def updateCompletedAt_def Let_def)

lemma example_fields:
  "isEvent liveMusicResult = Some True" "hasStartHourInPost liveMusicResult = Some True"
  "isPastEvent liveMusicResult = Some False"
  "startYear liveMusicResult = Some 2023" "startMonth liveMusicResult = Some 12"
  "startDay liveMusicResult = Some 29" "startHourMilitaryTime liveMusicResult = Some 20"
  "startMinute liveMusicResult = Some 0"
  "endYear liveMusicResult = Some 2023" "endMonth liveMusicResult = Some 12"
  "endDay liveMusicResult = Some 29" "endHourMilitaryTime liveMusicResult = Some 22"
  "endMinute liveMusicResult = Some 0"
  by (simp_all add: liveMusicResult_def postProcessing_def completion_fields liveMusic_def)

lemma earlyEnd_fields:
  "isEvent earlyEnd = Some True" "hasStartHourInPost earlyEnd = Some True"
  "isPastEvent earlyEnd = Some False"
  "startYear earlyEnd = Some 2023" "startMonth earlyEnd = Some 12"
  "startDay earlyEnd = Some 29" "startHourMilitaryTime earlyEnd = Some 20"
  "startMinute earlyEnd = Some 0"
  "endYear earlyEnd = Some 2023" "endMonth earlyEnd = Some 12"
  "endDay earlyEnd = Some 29" "endHourMilitaryTime earlyEnd = Some 10"
  "endMinute earlyEnd = Some 0"
  by (simp_all add: earlyEnd_def postProcessing_def completion_fields liveMusic_def)

lemma december_2023: "daysFromCivil 2023 12 29 = 19720"
  by (simp add: daysFromCivil_def)

text \<open>
  C1, as stated, fails: the result of the scenario with the end hour 10 passes the gate,
  and the event persisted for it starts on 2023-12-30 at 04:00 UTC and ends on
  2023-12-29 at 18:00 UTC, ten hours earlier.
\<close>

theorem end_before_start_counterexample:
  "acceptanceGate earlyEnd
   \<and> map start
        (events (snd (persistEvent winter2023 earlyEnd demoPost demoOrganizer storeWithPost)))
       = [Some 1703908800000]
   \<and> map end_e
        (events (snd (persistEvent winter2023 earlyEnd demoPost demoOrganizer storeWithPost)))
       = [Some 1703872800000]
   \<and> (1703872800000::int) < 1703908800000"
  by (simp add: persistEvent_events acceptanceGate_def earlyEnd_fields newEvent_def
      eventStart_def eventEnd_def fromObject_def validUnits_def daysInMonth_def isLeapYear_def
      objToLocalTS_def december_2023 plusDays_def toJSDate_def timeClip_def winter2023_def
      pacificStandard_def storeWithPost_def)

lemma timeClip_Some: "timeClip t = Some u \<Longrightarrow> u = t"
  by (simp add: timeClip_def split: if_splits)

text \<open>
  C1, amended. The code never compares the two instants. Take an accepted result for
  which both persisted instants are valid dates (so the start fields are a date and a
  time, the end year, month, hour and minute are one together with the start day, on
  which the end is built before it is moved by \<^verbatim>\<open>endDay - startDay\<close> days, and all
  times are in the range of JavaScript dates), whose end day is at least 1 and whose end
  fields do not come before the start fields in the order year, month, day, hour,
  minute. Its event is persisted with an end instant that is not before its start
  instant, provided the offset of the zone at the wall-clock time of the end is not
  larger than at the wall-clock time of the start, or is larger by at most an hour while
  the wall-clock time of the end is at least an hour after that of the start. An event
  that spans a change to or from daylight saving time is covered, unless it goes over
  the change to daylight saving time with less than an hour between its wall-clock
  times.
\<close>

theorem end_not_before_start:
  assumes gate: "acceptanceGate inference"
    and "startYear inference = Some sy" and "startMonth inference = Some smo"
    and "startDay inference = Some sd" and "startHourMilitaryTime inference = Some sh"
    and "startMinute inference = Some smi"
    and "endYear inference = Some ey" and "endMonth inference = Some emo"
    and "endDay inference = Some ed" and "endHourMilitaryTime inference = Some eh"
    and "endMinute inference = Some emi"
    and ws: "eventStart c inference = Some ws" and we: "eventEnd c inference = Some we"
    and a: "start (newEvent c inference post organizer) = Some a"
    and b: "end_e (newEvent c inference post organizer) = Some b"
    and ed: "1 \<le> ed"
    and ord: "sy < ey \<or> (sy = ey \<and> (smo < emo \<or> (smo = emo \<and> (sd < ed \<or> (sd = ed \<and>
                (sh < eh \<or> (sh = eh \<and> smi \<le> emi)))))))"
    and zone: "zone c we \<le> zone c ws
                \<or> (zone c we \<le> zone c ws + 3600000 \<and> ws + 3600000 \<le> we)"
  shows "events (snd (persistEvent c inference post organizer s))
            = events s @ [newEvent c inference post organizer]
          \<and> a \<le> b"
proof -
  have vs: "validUnits sy smo sd sh smi" and st: "ws = objToLocalTS sy smo sd sh smi"
    using ws assms(2-6) timeClip_Some [of "objToLocalTS sy smo sd sh smi" ws]
    by (simp_all add: eventStart_def fromObject_def split: if_splits)
  obtain we0 where e0: "fromObject (nowYear c) (nowMonth c) (endYear inference) (endMonth inference)
      sd eh emi = Some we0" and e1: "timeClip (we0 + (ed - sd) * 86400000) = Some we"
    using we assms(4,9-11) by (auto simp add: eventEnd_def plusDays_def split: option.splits)
  have ve: "validUnits ey emo sd eh emi" and e2: "we0 = objToLocalTS ey emo sd eh emi"
    using e0 assms(7,8) timeClip_Some [of "objToLocalTS ey emo sd eh emi" we0]
    by (simp_all add: fromObject_def split: if_splits)
  have en: "we = objToLocalTS ey emo sd eh emi + (ed - sd) * 86400000"
    using timeClip_Some [OF e1] e2 by simp
  have order: "ws \<le> we" unfolding st en by (rule wall_clock_order [OF vs ve ed ord])
  have a': "a = ws - zone c ws"
    using a ws timeClip_Some [of "ws - zone c ws" a] by (simp add: newEvent_def toJSDate_def)
  have b': "b = we - zone c we"
    using b we timeClip_Some [of "we - zone c we" b] by (simp add: newEvent_def toJSDate_def)
  have "a \<le> b" unfolding a' b' using order zone by linarith
  then show ?thesis using gate by (simp add: persistEvent_events)
qed

lemma springNight_fields:
  "isEvent springNight = Some True" "hasStartHourInPost springNight = Some True"
  "isPastEvent springNight = Some False"
  "startYear springNight = Some 2024" "startMonth springNight = Some 3"
  "startDay springNight = Some 10" "startHourMilitaryTime springNight = Some 1"
  "startMinute springNight = Some 0"
  "endYear springNight = Some 2024" "endMonth springNight = Some 3"
  "endDay springNight = Some 10" "endHourMilitaryTime springNight = Some 4"
  "endMinute springNight = Some 0"
  by (simp_all add: springNight_def postProcessing_def completion_fields liveMusic_def)

lemma march_2024: "daysFromCivil 2024 3 10 = 19792"
  by (simp add: daysFromCivil_def)

text \<open>The theorem at the event that spans the change to daylight saving time: it starts
  at 09:00 UTC and ends at 11:00 UTC.\<close>

theorem end_not_before_start_witness:
  "events (snd (persistEvent spring2024 springNight demoPost demoOrganizer storeWithPost))
     = events storeWithPost @ [newEvent spring2024 springNight demoPost demoOrganizer]
   \<and> start (newEvent spring2024 springNight demoPost demoOrganizer) = Some 1710061200000
   \<and> end_e (newEvent spring2024 springNight demoPost demoOrganizer) = Some 1710068400000
   \<and> (1710061200000::int) \<le> 1710068400000"
proof -
  have gate: "acceptanceGate springNight" by (simp add: acceptanceGate_def springNight_fields)
  have ws: "eventStart spring2024 springNight = Some 1710032400000"
    by (simp add: eventStart_def springNight_fields fromObject_def validUnits_def daysInMonth_def
        isLeapYear_def objToLocalTS_def march_2024 timeClip_def)
  have we: "eventEnd spring2024 springNight = Some 1710043200000"
    by (simp add: eventEnd_def springNight_fields fromObject_def validUnits_def daysInMonth_def
        isLeapYear_def objToLocalTS_def march_2024 plusDays_def timeClip_def)
  have z: "zone spring2024 = pacificSpring2024" by (simp add: spring2024_def)
  have a: "start (newEvent spring2024 springNight demoPost demoOrganizer) = Some 1710061200000"
    by (simp add: newEvent_def ws toJSDate_def timeClip_def z pacificSpring2024_def)
  have b: "end_e (newEvent spring2024 springNight demoPost demoOrganizer) = Some 1710068400000"
    by (simp add: newEvent_def we toJSDate_def timeClip_def z pacificSpring2024_def)
  have ed: "(1::int) \<le> 10" by simp
  have ord: "(2024::int) < 2024 \<or> ((2024::int) = 2024 \<and> ((3::int) < 3 \<or> ((3::int) = 3
      \<and> ((10::int) < 10 \<or> ((10::int) = 10 \<and> ((1::int) < 4 \<or> ((1::int) = 4 \<and> (0::int) \<le> 0)))))))"
    by simp
  have zone: "zone spring2024 1710043200000 \<le> zone spring2024 1710032400000
      \<or> (zone spring2024 1710043200000 \<le> zone spring2024 1710032400000 + 3600000
          \<and> (1710032400000::int) + 3600000 \<le> 1710043200000)"
    by (simp add: z pacificSpring2024_def)
  show ?thesis
    using end_not_before_start [OF gate springNight_fields(4-13) ws we a b ed ord zone,
        of storeWithPost] a b
    by simp
qed

text \<open>
  C3. \<^verbatim>\<open>persistEvent\<close> adds an event to the store if and only if \<^verbatim>\<open>isEvent\<close> is true,
  \<^verbatim>\<open>hasStartHourInPost\<close> is true, \<^verbatim>\<open>isPastEvent\<close> is false and the start and end day,
  hour and minute are not \<^verbatim>\<open>null\<close>; for every other result it returns \<^verbatim>\<open>null\<close>
  without an error and leaves the store as it was.
\<close>

theorem persisted_iff_accepted:
  "(events (snd (persistEvent c inference post organizer s))
      = events s @ [newEvent c inference post organizer]
    \<longleftrightarrow> isEvent inference = Some True \<and> hasStartHourInPost inference = Some True
        \<and> isPastEvent inference = Some False
        \<and> startDay inference \<noteq> None \<and> endDay inference \<noteq> None
        \<and> startHourMilitaryTime inference \<noteq> None \<and> endHourMilitaryTime inference \<noteq> None
        \<and> startMinute inference \<noteq> None \<and> endMinute inference \<noteq> None)
   \<and> (\<not> (isEvent inference = Some True \<and> hasStartHourInPost inference = Some True
        \<and> isPastEvent inference = Some False
        \<and> startDay inference \<noteq> None \<and> endDay inference \<noteq> None
        \<and> startHourMilitaryTime inference \<noteq> None \<and> endHourMilitaryTime inference \<noteq> None
        \<and> startMinute inference \<noteq> None \<and> endMinute inference \<noteq> None)
      \<longrightarrow> persistEvent c inference post organizer s = (Inr None, s))"
proof -
  have g: "acceptanceGate inference \<longleftrightarrow>
      isEvent inference = Some True \<and> hasStartHourInPost inference = Some True
        \<and> isPastEvent inference = Some False
        \<and> startDay inference \<noteq> None \<and> endDay inference \<noteq> None
        \<and> startHourMilitaryTime inference \<noteq> None \<and> endHourMilitaryTime inference \<noteq> None
        \<and> startMinute inference \<noteq> None \<and> endMinute inference \<noteq> None"
    unfolding acceptanceGate_def by blast
  have a: "events (snd (persistEvent c inference post organizer s))
      = events s @ [newEvent c inference post organizer] \<longleftrightarrow> acceptanceGate inference"
    by (simp add: persistEvent_events)
  have b: "\<not> acceptanceGate inference \<Longrightarrow> persistEvent c inference post organizer s = (Inr None, s)"
    by (simp add: persistEvent_def)
  show ?thesis using a b unfolding g by blast
qed

theorem persisted_iff_accepted_witness:
  "isPastEvent pastEvent = Some True
   \<and> persistEvent winter2023 pastEvent demoPost demoOrganizer storeWithPost
       = (Inr None, storeWithPost)
   \<and> events (snd (persistEvent winter2023 liveMusicResult demoPost demoOrganizer storeWithPost))
       = events storeWithPost @ [newEvent winter2023 liveMusicResult demoPost demoOrganizer]"
  using persisted_iff_accepted [of winter2023 pastEvent demoPost demoOrganizer storeWithPost]
    persisted_iff_accepted [of winter2023 liveMusicResult demoPost demoOrganizer storeWithPost]
  by (simp add: pastEvent_def postProcessing_def completion_fields liveMusic_def example_fields)

section \<open>What the stages of the pipeline change\<close>

lemma persistEvent_null: "fst (persistEvent c inference post organizer s) \<noteq> Inr (Some ev)"
  by (simp add: persistEvent_def updateCompletedAt_def Let_def)

lemma persistEvent_ids:
  "map post_id (posts (snd (persistEvent c inference post organizer s))) = map post_id (posts s)"
  by (simp add: persistEvent_def updateCompletedAt_def Let_def comp_def)

lemma persistEvent_ocrRequests:
  "ocrRequests (snd (persistEvent c inference post organizer s)) = ocrRequests s"
  by (simp add: persistEvent_def updateCompletedAt_def Let_def)

lemma fetchOcrResults_state:
  "posts (snd (fetchOcrResults E urls s)) = posts s"
  "events (snd (fetchOcrResults E urls s)) = events s"
  "ocrRequests (snd (fetchOcrResults E urls s)) =
     (if visionPrivateKey E \<and> visionClientEmail E then ocrRequests s @ urls else ocrRequests s)"
  by (simp_all add: fetchOcrResults_def Let_def split: sum.splits)

lemma extractText_state:
  "posts (snd (extractTextFromPostImages E post s)) = posts s"
  "events (snd (extractTextFromPostImages E post s)) = events s"
  "ocrRequests (snd (extractTextFromPostImages E post s)) = ocrRequests s @ requested E post"
proof -
  show "posts (snd (extractTextFromPostImages E post s)) = posts s"
  proof (cases "mediaUrlsJson post")
    case None then show ?thesis by (simp add: extractTextFromPostImages_def)
  next
    case (Some urls)
    obtain r s1 where f: "fetchOcrResults E urls s = (r, s1)" by (cases "fetchOcrResults E urls s")
    then show ?thesis using Some fetchOcrResults_state(1) [of E urls s]
      by (cases r) (simp_all add: extractTextFromPostImages_def)
  qed
  show "events (snd (extractTextFromPostImages E post s)) = events s"
  proof (cases "mediaUrlsJson post")
    case None then show ?thesis by (simp add: extractTextFromPostImages_def)
  next
    case (Some urls)
    obtain r s1 where f: "fetchOcrResults E urls s = (r, s1)" by (cases "fetchOcrResults E urls s")
    then show ?thesis using Some fetchOcrResults_state(2) [of E urls s]
      by (cases r) (simp_all add: extractTextFromPostImages_def)
  qed
  show "ocrRequests (snd (extractTextFromPostImages E post s)) = ocrRequests s @ requested E post"
  proof (cases "mediaUrlsJson post")
    case None then show ?thesis by (simp add: extractTextFromPostImages_def requested_def)
  next
    case (Some urls)
    obtain r s1 where f: "fetchOcrResults E urls s = (r, s1)" by (cases "fetchOcrResults E urls s")
    then show ?thesis using Some fetchOcrResults_state(3) [of E urls s]
      by (cases r) (simp_all add: extractTextFromPostImages_def requested_def)
  qed
qed

lemma runInference_state:
  "posts (snd (runInferenceOnPost E organizer post ocr s)) = posts s"
  "events (snd (runInferenceOnPost E organizer post ocr s)) = events s"
  "ocrRequests (snd (runInferenceOnPost E organizer post ocr s)) = ocrRequests s"
  by (simp_all add: runInferenceOnPost_def writeLog_def Let_def split: sum.splits option.splits)

text \<open>The three stages of an extraction, with the state after each.\<close>

lemma extractEvent_cases:
  obtains (ocr) e s1 where "extractTextFromPostImages E post s = (Inl e, s1)"
      "extractEventFromPost E organizer post s = (Inl e, s1)"
  | (inference) imageText s1 e s2 where "extractTextFromPostImages E post s = (Inr imageText, s1)"
      "runInferenceOnPost E organizer post imageText s1 = (Inl e, s2)"
      "extractEventFromPost E organizer post s = (Inl e, s2)"
  | (no_content) imageText s1 s2 where "extractTextFromPostImages E post s = (Inr imageText, s1)"
      "runInferenceOnPost E organizer post imageText s1 = (Inr None, s2)"
      "extractEventFromPost E organizer post s = (Inr None, s2)"
  | (persist) imageText s1 inference s2 where "extractTextFromPostImages E post s = (Inr imageText, s1)"
      "runInferenceOnPost E organizer post imageText s1 = (Inr (Some inference), s2)"
      "extractEventFromPost E organizer post s = persistEvent E inference post organizer s2"
proof -
  obtain r1 s1 where a: "extractTextFromPostImages E post s = (r1, s1)"
    by (cases "extractTextFromPostImages E post s")
  show thesis
  proof (cases r1)
    case (Inl e)
    show thesis by (rule ocr [of e s1]) (simp_all add: extractEventFromPost_def a Inl)
  next
    case (Inr imageText)
    obtain r2 s2 where b: "runInferenceOnPost E organizer post imageText s1 = (r2, s2)"
      by (cases "runInferenceOnPost E organizer post imageText s1")
    show thesis
    proof (cases r2)
      case (Inl e)
      show thesis by (rule inference [of imageText s1 e s2]) (simp_all add: extractEventFromPost_def a Inr b Inl)
    next
      case r: (Inr v)
      show thesis
      proof (cases v)
        case None
        show thesis by (rule no_content [of imageText s1 s2]) (simp_all add: extractEventFromPost_def a Inr b r None)
      next
        case (Some inf)
        show thesis by (rule persist [of imageText s1 inf s2]) (simp_all add: extractEventFromPost_def a Inr b r Some)
      qed
    qed
  qed
qed

lemma extractEvent_null: "fst (extractEventFromPost E organizer post s) \<noteq> Inr (Some ev)"
  by (cases rule: extractEvent_cases [of E post s organizer]) (simp_all add: persistEvent_null)

lemma extractEvent_ids:
  "map post_id (posts (snd (extractEventFromPost E organizer post s))) = map post_id (posts s)"
proof (cases rule: extractEvent_cases [of E post s organizer])
  case (ocr e s1)
  then show ?thesis using extractText_state(1) [of E post s] by simp
next
  case (inference imageText s1 e s2)
  then show ?thesis
    using extractText_state(1) [of E post s] runInference_state(1) [of E organizer post imageText s1]
    by simp
next
  case (no_content imageText s1 s2)
  then show ?thesis
    using extractText_state(1) [of E post s] runInference_state(1) [of E organizer post imageText s1]
    by simp
next
  case (persist imageText s1 inference s2)
  then show ?thesis
    using extractText_state(1) [of E post s] runInference_state(1) [of E organizer post imageText s1]
      persistEvent_ids [of E inference post organizer s2]
    by simp
qed

lemma extractEvent_ocrRequests:
  "ocrRequests (snd (extractEventFromPost E organizer post s)) = ocrRequests s @ requested E post"
proof (cases rule: extractEvent_cases [of E post s organizer])
  case (ocr e s1)
  then show ?thesis using extractText_state(3) [of E post s] by simp
next
  case (inference imageText s1 e s2)
  then show ?thesis
    using extractText_state(3) [of E post s] runInference_state(3) [of E organizer post imageText s1]
    by simp
next
  case (no_content imageText s1 s2)
  then show ?thesis
    using extractText_state(3) [of E post s] runInference_state(3) [of E organizer post imageText s1]
    by simp
next
  case (persist imageText s1 inference s2)
  then show ?thesis
    using extractText_state(3) [of E post s] runInference_state(3) [of E organizer post imageText s1]
      persistEvent_ocrRequests [of E inference post organizer s2]
    by simp
qed

text \<open>An extraction that does not reach \<^verbatim>\<open>persistEvent\<close> creates no event.\<close>

lemma extractEvent_events_kept:
  assumes "\<And>imageText s1 inference s2.
      runInferenceOnPost E organizer post imageText s1 \<noteq> (Inr (Some inference), s2)"
  shows "events (snd (extractEventFromPost E organizer post s)) = events s"
proof (cases rule: extractEvent_cases [of E post s organizer])
  case (ocr e s1)
  then show ?thesis using extractText_state(2) [of E post s] by simp
next
  case (inference imageText s1 e s2)
  then show ?thesis
    using extractText_state(2) [of E post s] runInference_state(2) [of E organizer post imageText s1]
    by simp
next
  case (no_content imageText s1 s2)
  then show ?thesis
    using extractText_state(2) [of E post s] runInference_state(2) [of E organizer post imageText s1]
    by simp
next
  case (persist imageText s1 inference s2)
  then show ?thesis using assms by blast
qed

lemma getMediaUrls_state:
  "posts (snd (getMediaUrls post s)) = posts s"
  "events (snd (getMediaUrls post s)) = events s"
  "ocrRequests (snd (getMediaUrls post s)) = ocrRequests s"
  by (simp_all add: getMediaUrls_def writeLog_def split: option.splits)

text \<open>The two outcomes of the create-if-absent operation.\<close>

lemma persistPost_cases:
  obtains (known) s1 where "api_id apiPost \<in> post_id ` set (posts s)"
      "persistPostNoneIfPresent organizer apiPost s = (Inr None, s1)"
      "posts s1 = posts s" "events s1 = events s" "ocrRequests s1 = ocrRequests s"
  | (created) dbPost s1 where "api_id apiPost \<notin> post_id ` set (posts s)"
      "persistPostNoneIfPresent organizer apiPost s = (Inr (Some dbPost), s1)"
      "post_id dbPost = api_id apiPost" "mediaUrlsJson dbPost = fst (getMediaUrls apiPost s)"
      "posts s1 = posts s @ [dbPost]" "events s1 = events s" "ocrRequests s1 = ocrRequests s"
proof -
  obtain mediaUrls s0 where g: "getMediaUrls apiPost s = (mediaUrls, s0)"
    by (cases "getMediaUrls apiPost s")
  have s0: "posts s0 = posts s" "events s0 = events s" "ocrRequests s0 = ocrRequests s"
    using getMediaUrls_state [of apiPost s] g by simp_all
  show thesis
  proof (cases "api_id apiPost \<in> post_id ` set (posts s)")
    case True
    show thesis
      by (rule known [of s0])
        (use True g s0 in \<open>simp_all add: persistPostNoneIfPresent_def createPost_def\<close>)
  next
    case False
    show thesis
      by (rule created [of "\<lparr> post_id = api_id apiPost, url = permalink apiPost,
            organizerId = organizer_id organizer, caption = api_caption apiPost,
            postDate = timestamp apiPost, mediaUrlsJson = mediaUrls, completedAt = None \<rparr>"
            "s0\<lparr>posts := posts s0 @ [\<lparr> post_id = api_id apiPost, url = permalink apiPost,
            organizerId = organizer_id organizer, caption = api_caption apiPost,
            postDate = timestamp apiPost, mediaUrlsJson = mediaUrls, completedAt = None \<rparr>]\<rparr>"])
        (use False g s0 in \<open>simp_all add: persistPostNoneIfPresent_def createPost_def\<close>)
  qed
qed

lemma handle_known:
  assumes "api_id apiPost \<in> post_id ` set (posts s)"
  shows "fst (handleInstagramPost E organizer apiPost s) = Inr None"
    and "posts (snd (handleInstagramPost E organizer apiPost s)) = posts s"
    and "events (snd (handleInstagramPost E organizer apiPost s)) = events s"
    and "ocrRequests (snd (handleInstagramPost E organizer apiPost s)) = ocrRequests s"
proof -
  have "\<exists>s1. handleInstagramPost E organizer apiPost s = (Inr None, s1) \<and> posts s1 = posts s
    \<and> events s1 = events s \<and> ocrRequests s1 = ocrRequests s"
  proof (cases rule: persistPost_cases [of apiPost s organizer])
    case (known s1)
    then show ?thesis by (simp add: handleInstagramPost_def)
  next
    case (created dbPost s1)
    then show ?thesis using assms by simp
  qed
  then show "fst (handleInstagramPost E organizer apiPost s) = Inr None"
    and "posts (snd (handleInstagramPost E organizer apiPost s)) = posts s"
    and "events (snd (handleInstagramPost E organizer apiPost s)) = events s"
    and "ocrRequests (snd (handleInstagramPost E organizer apiPost s)) = ocrRequests s"
    by auto
qed

text \<open>A handler that created the post goes on with the extraction.\<close>

lemma handle_created:
  assumes "persistPostNoneIfPresent organizer apiPost s = (Inr (Some dbPost), s1)"
  shows "handleInstagramPost E organizer apiPost s = extractEventFromPost E organizer dbPost s1"
proof -
  obtain r s2 where e: "extractEventFromPost E organizer dbPost s1 = (r, s2)"
    by (cases "extractEventFromPost E organizer dbPost s1")
  have "r \<noteq> Inr (Some ev)" for ev using extractEvent_null [of E organizer dbPost s1 ev] e by simp
  then show ?thesis using assms e
    by (cases r) (auto simp add: handleInstagramPost_def split: option.splits)
qed

lemma handle_null: "fst (handleInstagramPost E organizer apiPost s) \<noteq> Inr (Some ev)"
proof (cases rule: persistPost_cases [of apiPost s organizer])
  case (known s1)
  then show ?thesis by (simp add: handleInstagramPost_def)
next
  case (created dbPost s1)
  then show ?thesis using handle_created [of organizer apiPost s dbPost s1 E]
    by (simp add: extractEvent_null)
qed

lemma handle_ids:
  "api_id apiPost \<in> post_id ` set (posts (snd (handleInstagramPost E organizer apiPost s)))"
  "post_id ` set (posts s) \<subseteq> post_id ` set (posts (snd (handleInstagramPost E organizer apiPost s)))"
proof -
  have "api_id apiPost \<in> set (map post_id (posts (snd (handleInstagramPost E organizer apiPost s))))
      \<and> set (map post_id (posts s)) \<subseteq> set (map post_id (posts (snd (handleInstagramPost E organizer apiPost s))))"
  proof (cases rule: persistPost_cases [of apiPost s organizer])
    case (known s1)
    then show ?thesis by (simp add: handleInstagramPost_def)
  next
    case (created dbPost s1)
    then show ?thesis using handle_created [of organizer apiPost s dbPost s1 E]
      by (auto simp add: extractEvent_ids)
  qed
  then show "api_id apiPost \<in> post_id ` set (posts (snd (handleInstagramPost E organizer apiPost s)))"
    and "post_id ` set (posts s) \<subseteq> post_id ` set (posts (snd (handleInstagramPost E organizer apiPost s)))"
    by simp_all
qed

lemma handlePosts_null:
  "r \<in> set (fst (handlePosts E organizer fetched s)) \<Longrightarrow> r \<noteq> Inr (Some ev)"
proof (induction fetched arbitrary: s)
  case Nil
  then show ?case by simp
next
  case (Cons post rest)
  obtain r1 s1 where h: "handleInstagramPost E organizer post s = (r1, s1)"
    by (cases "handleInstagramPost E organizer post s")
  obtain rs s2 where t: "handlePosts E organizer rest s1 = (rs, s2)"
    by (cases "handlePosts E organizer rest s1")
  have "r = r1 \<or> r \<in> set rs" using Cons.prems h t by simp
  then show ?case
  proof
    assume "r = r1"
    then show ?thesis using handle_null [of E organizer post s ev] h by simp
  next
    assume "r \<in> set rs"
    then show ?thesis using Cons.IH [of s1] t by simp
  qed
qed

lemma handlePosts_ids:
  "post_id ` set (posts s) \<union> api_id ` set fetched
     \<subseteq> post_id ` set (posts (snd (handlePosts E organizer fetched s)))"
proof (induction fetched arbitrary: s)
  case Nil
  then show ?case by simp
next
  case (Cons post rest)
  obtain r1 s1 where h: "handleInstagramPost E organizer post s = (r1, s1)"
    by (cases "handleInstagramPost E organizer post s")
  obtain rs s2 where t: "handlePosts E organizer rest s1 = (rs, s2)"
    by (cases "handlePosts E organizer rest s1")
  have a: "api_id post \<in> post_id ` set (posts s1)" "post_id ` set (posts s) \<subseteq> post_id ` set (posts s1)"
    using handle_ids [where apiPost = post and E = E and organizer = organizer and s = s] h
    by simp_all
  have b: "post_id ` set (posts s1) \<union> api_id ` set rest \<subseteq> post_id ` set (posts s2)"
    using Cons.IH [of s1] t by simp
  show ?case using a b h t by auto
qed

lemma presentEvents_null:
  "promiseAll rs = Inr maybeEvents \<Longrightarrow> (\<And>r ev. r \<in> set rs \<Longrightarrow> r \<noteq> Inr (Some ev))
     \<Longrightarrow> presentEvents maybeEvents = []"
proof (induction rs arbitrary: maybeEvents)
  case Nil
  then show ?case by simp
next
  case (Cons r rs)
  show ?case
  proof (cases r)
    case (Inl e)
    then show ?thesis using Cons.prems(1) by simp
  next
    case (Inr v)
    have v: "v = None"
    proof (cases v)
      case None then show ?thesis .
    next
      case (Some a)
      then show ?thesis using Cons.prems(2) [of r a] Inr by simp
    qed
    obtain vs where vs: "promiseAll rs = Inr vs" "maybeEvents = v # vs"
      using Cons.prems(1) Inr by (auto split: sum.splits)
    have "presentEvents vs = []" using Cons.IH [OF vs(1)] Cons.prems(2) by simp
    then show ?thesis using v vs by simp
  qed
qed

lemma ingest_empty: "fst (ingestEventsForOrganizer E organizer s) = []"
proof -
  obtain r1 s1 where f: "fetchPosts E organizer s = (r1, s1)" by (cases "fetchPosts E organizer s")
  show ?thesis
  proof (cases r1)
    case (Inl e)
    then show ?thesis using f by (simp add: ingestEventsForOrganizer_def)
  next
    case (Inr fetched)
    obtain results s2 where h: "handlePosts E organizer fetched s1 = (results, s2)"
      by (cases "handlePosts E organizer fetched s1")
    have n: "r \<in> set results \<Longrightarrow> r \<noteq> Inr (Some ev)" for r ev
      using handlePosts_null [of r E organizer fetched s1 ev] h by simp
    show ?thesis
    proof (cases "promiseAll results")
      case (Inl e)
      then show ?thesis using f Inr h by (simp add: ingestEventsForOrganizer_def)
    next
      case r: (Inr maybeEvents)
      have "presentEvents maybeEvents = []" using presentEvents_null [OF r] n by blast
      then show ?thesis using f Inr h r by (simp add: ingestEventsForOrganizer_def)
    qed
  qed
qed

lemma countsBySource_counts:
  "fst (countsBySource E sources s) = map (\<lambda>source. (source_username source, 0)) sources"
proof (induction sources arbitrary: s)
  case Nil
  then show ?case by simp
next
  case (Cons source rest)
  obtain organizer s1 where g: "getOrInsertOrganizer source s = (organizer, s1)"
    by (cases "getOrInsertOrganizer source s")
  obtain evs s2 where i: "ingestEventsForOrganizer E organizer s1 = (evs, s2)"
    by (cases "ingestEventsForOrganizer E organizer s1")
  obtain counts s3 where c: "countsBySource E rest s2 = (counts, s3)"
    by (cases "countsBySource E rest s2")
  have "evs = []" using ingest_empty [of E organizer s1] i by simp
  moreover have "counts = map (\<lambda>source. (source_username source, 0)) rest"
    using Cons.IH [of s2] c by simp
  ultimately show ?case using g i c by simp
qed

lemma handle_events_kept:
  assumes "\<And>post imageText s1 inference s2.
      runInferenceOnPost E organizer post imageText s1 \<noteq> (Inr (Some inference), s2)"
  shows "events (snd (handleInstagramPost E organizer apiPost s)) = events s"
proof (cases rule: persistPost_cases [of apiPost s organizer])
  case (known s1)
  then show ?thesis by (simp add: handleInstagramPost_def)
next
  case (created dbPost s1)
  have "events (snd (extractEventFromPost E organizer dbPost s1)) = events s1"
    using assms by (rule extractEvent_events_kept)
  then show ?thesis using created handle_created [of organizer apiPost s dbPost s1 E] by simp
qed

lemma missing_property:
  assumes "p_isEvent object = Absent \<or> p_title object = Absent
      \<or> p_startHourMilitaryTime object = Absent \<or> p_endHourMilitaryTime object = Absent
      \<or> p_isPastEvent object = Absent \<or> p_hasStartHourInPost object = Absent
      \<or> p_startMinute object = Absent \<or> p_endMinute object = Absent
      \<or> p_startDay object = Absent \<or> p_endDay object = Absent
      \<or> p_startMonth object = Absent \<or> p_endMonth object = Absent
      \<or> p_startYear object = Absent \<or> p_endYear object = Absent"
  shows "\<not> hasAllProperties object"
  using assms unfolding hasAllProperties_def by (elim disjE) simp_all

section \<open>Shape validation\<close>

text \<open>
  C6. When the object parsed from the generated text lacks one of the fourteen keys, the
  sanitizer throws; the inference stage of a post then fails with that error, and neither
  the extraction nor the handler of a post creates an event.
\<close>

theorem missing_key_is_hard_failure:
  assumes parsed: "parse E (fixGeneratedJson generatedJson) = Some object"
    and missing: "p_isEvent object = Absent \<or> p_title object = Absent
      \<or> p_startHourMilitaryTime object = Absent \<or> p_endHourMilitaryTime object = Absent
      \<or> p_isPastEvent object = Absent \<or> p_hasStartHourInPost object = Absent
      \<or> p_startMinute object = Absent \<or> p_endMinute object = Absent
      \<or> p_startDay object = Absent \<or> p_endDay object = Absent
      \<or> p_startMonth object = Absent \<or> p_endMonth object = Absent
      \<or> p_startYear object = Absent \<or> p_endYear object = Absent"
    and content: "generatedJson \<noteq> []"
    and answer: "\<And>prompt. executePrompt E prompt = Inr (Some generatedJson)"
  shows "postProcessOpenAiInstagramResponse (parse E) fullYear generatedJson
           = Inl (Error ''JSON does not contain expected fields'')
       \<and> fst (runInferenceOnPost E organizer post ocrResult s)
           = Inl (Error ''JSON does not contain expected fields'')
       \<and> events (snd (extractEventFromPost E organizer post s)) = events s
       \<and> events (snd (handleInstagramPost E organizer apiPost s)) = events s"
proof -
  have n: "\<not> hasAllProperties object" using missing by (rule missing_property)
  have a: "postProcessOpenAiInstagramResponse (parse E) y generatedJson
      = Inl (Error ''JSON does not contain expected fields'')" for y
    using parsed n by (simp add: postProcessOpenAiInstagramResponse_def)
  have b: "fst (runInferenceOnPost E organizer' post' imageText s1)
      = Inl (Error ''JSON does not contain expected fields'')" for organizer' post' imageText s1
    using a [of "nowYear E"] content answer by (simp add: runInferenceOnPost_def Let_def)
  have c: "runInferenceOnPost E organizer' post' imageText s1 \<noteq> (Inr (Some inference), s2)"
    for organizer' post' imageText s1 inference s2
    using b [of organizer' post' imageText s1] by auto
  have d: "events (snd (extractEventFromPost E organizer post s)) = events s"
    using c by (rule extractEvent_events_kept)
  have e: "events (snd (handleInstagramPost E organizer apiPost s)) = events s"
    using c by (rule handle_events_kept)
  show ?thesis using a b d e by simp
qed

theorem missing_key_is_hard_failure_witness:
  "postProcessOpenAiInstagramResponse (parse titlelessEnv) 2023 ''Here you go: {p2}''
     = Inl (Error ''JSON does not contain expected fields'')
   \<and> fst (runInferenceOnPost titlelessEnv demoOrganizer demoPost None emptyStore)
       = Inl (Error ''JSON does not contain expected fields'')
   \<and> events (snd (extractEventFromPost titlelessEnv demoOrganizer demoPost emptyStore))
       = events emptyStore
   \<and> events (snd (handleInstagramPost titlelessEnv demoOrganizer apiPost1 emptyStore))
       = events emptyStore"
proof -
  have parsed: "parse titlelessEnv (fixGeneratedJson ''Here you go: {p2}'')
      = Some (liveMusic\<lparr> p_title := Absent \<rparr>)"
    by (simp add: titlelessEnv_def demoEnv_def fixGeneratedJson_def)
  have missing: "p_isEvent (liveMusic\<lparr> p_title := Absent \<rparr>) = Absent
      \<or> p_title (liveMusic\<lparr> p_title := Absent \<rparr>) = Absent
      \<or> p_startHourMilitaryTime (liveMusic\<lparr> p_title := Absent \<rparr>) = Absent
      \<or> p_endHourMilitaryTime (liveMusic\<lparr> p_title := Absent \<rparr>) = Absent
      \<or> p_isPastEvent (liveMusic\<lparr> p_title := Absent \<rparr>) = Absent
      \<or> p_hasStartHourInPost (liveMusic\<lparr> p_title := Absent \<rparr>) = Absent
      \<or> p_startMinute (liveMusic\<lparr> p_title := Absent \<rparr>) = Absent
      \<or> p_endMinute (liveMusic\<lparr> p_title := Absent \<rparr>) = Absent
      \<or> p_startDay (liveMusic\<lparr> p_title := Absent \<rparr>) = Absent
      \<or> p_endDay (liveMusic\<lparr> p_title := Absent \<rparr>) = Absent
      \<or> p_startMonth (liveMusic\<lparr> p_title := Absent \<rparr>) = Absent
      \<or> p_endMonth (liveMusic\<lparr> p_title := Absent \<rparr>) = Absent
      \<or> p_startYear (liveMusic\<lparr> p_title := Absent \<rparr>) = Absent
      \<or> p_endYear (liveMusic\<lparr> p_title := Absent \<rparr>) = Absent"
    by simp
  have content: "''Here you go: {p2}'' \<noteq> []" by simp
  have answer: "executePrompt titlelessEnv prompt = Inr (Some ''Here you go: {p2}'')" for prompt
    by (simp add: titlelessEnv_def)
  show ?thesis
    by (rule missing_key_is_hard_failure [OF parsed missing content answer])
qed

section \<open>Deduplication of posts\<close>

text \<open>
  C7. For a post whose id the store already has, the create is refused with the code
  P2002, \<^verbatim>\<open>persistPostNoneIfPresent\<close> turns that into \<^verbatim>\<open>null\<close> and adds no post,
  and \<^verbatim>\<open>handleInstagramPost\<close> returns \<^verbatim>\<open>null\<close> at once: it adds no post and no
  event and sends nothing to text detection. Handling a post a second time, from any
  state, is such a case, so a replay changes neither the posts nor the events.
\<close>

theorem known_post_is_skipped:
  assumes known: "api_id apiPost \<in> post_id ` set (posts s)"
    and row: "post_id row = api_id apiPost"
  shows "createPost row s = Inl (PrismaClientKnownRequestError ''P2002'')
       \<and> fst (persistPostNoneIfPresent organizer apiPost s) = Inr None
       \<and> posts (snd (persistPostNoneIfPresent organizer apiPost s)) = posts s
       \<and> fst (handleInstagramPost E organizer apiPost s) = Inr None
       \<and> posts (snd (handleInstagramPost E organizer apiPost s)) = posts s
       \<and> events (snd (handleInstagramPost E organizer apiPost s)) = events s
       \<and> ocrRequests (snd (handleInstagramPost E organizer apiPost s)) = ocrRequests s
       \<and> fst (handleInstagramPost E organizer apiPost
                 (snd (handleInstagramPost E organizer apiPost s0))) = Inr None
       \<and> posts (snd (handleInstagramPost E organizer apiPost
                 (snd (handleInstagramPost E organizer apiPost s0))))
           = posts (snd (handleInstagramPost E organizer apiPost s0))
       \<and> events (snd (handleInstagramPost E organizer apiPost
                 (snd (handleInstagramPost E organizer apiPost s0))))
           = events (snd (handleInstagramPost E organizer apiPost s0))"
proof -
  have a: "createPost row s = Inl (PrismaClientKnownRequestError ''P2002'')"
    using known row by (simp add: createPost_def)
  have b: "fst (persistPostNoneIfPresent organizer apiPost s) = Inr None
      \<and> posts (snd (persistPostNoneIfPresent organizer apiPost s)) = posts s"
  proof (cases rule: persistPost_cases [of apiPost s organizer])
    case (known s1)
    then show ?thesis by simp
  next
    case (created dbPost s1)
    then show ?thesis using assms(1) by simp
  qed
  have c: "api_id apiPost \<in> post_id ` set (posts (snd (handleInstagramPost E organizer apiPost s0)))"
    by (rule handle_ids(1))
  show ?thesis
    using a b handle_known [OF known, of E organizer] handle_known [OF c, of E organizer]
    by simp
qed

theorem known_post_is_skipped_witness:
  "createPost demoPost storeWithPost = Inl (PrismaClientKnownRequestError ''P2002'')
   \<and> fst (persistPostNoneIfPresent demoOrganizer apiPost1 storeWithPost) = Inr None
   \<and> posts (snd (persistPostNoneIfPresent demoOrganizer apiPost1 storeWithPost)) = posts storeWithPost
   \<and> fst (handleInstagramPost demoEnv demoOrganizer apiPost1 storeWithPost) = Inr None
   \<and> posts (snd (handleInstagramPost demoEnv demoOrganizer apiPost1 storeWithPost)) = posts storeWithPost
   \<and> events (snd (handleInstagramPost demoEnv demoOrganizer apiPost1 storeWithPost)) = events storeWithPost
   \<and> ocrRequests (snd (handleInstagramPost demoEnv demoOrganizer apiPost1 storeWithPost))
       = ocrRequests storeWithPost"
proof -
  have known: "api_id apiPost1 \<in> post_id ` set (posts storeWithPost)"
    by (simp add: apiPost1_def storeWithPost_def demoPost_def)
  have row: "post_id demoPost = api_id apiPost1" by (simp add: apiPost1_def demoPost_def)
  show ?thesis
    using known_post_is_skipped [OF known row, of demoOrganizer demoEnv] by simp
qed

section \<open>Return values of the pipeline\<close>

lemma persistEvent_accepted:
  assumes "acceptanceGate inference" and "post_id post \<in> post_id ` set (posts s)"
  shows "persistEvent c inference post organizer s =
     (Inr None,
      s\<lparr> events := events s @ [newEvent c inference post organizer],
         posts := map (\<lambda>p. if post_id p = post_id post then p\<lparr>completedAt := Some (nowDate c)\<rparr> else p)
                    (posts s) \<rparr>)"
  using assms by (simp add: persistEvent_def updateCompletedAt_def Let_def)

text \<open>
  C10. \<^verbatim>\<open>persistEvent\<close> never returns an event: when it returns, it returns
  \<^verbatim>\<open>null\<close>, also when the gate passes, the event is created and the post is marked
  complete. So \<^verbatim>\<open>extractEventFromPost\<close> and \<^verbatim>\<open>handleInstagramPost\<close> never return
  an event either, \<^verbatim>\<open>ingestEventsForOrganizer\<close> returns the empty list, and the counts
  that the two entry points log are zero.
\<close>

theorem events_are_never_returned:
  "fst (persistEvent c inference post organizer s) \<noteq> Inr (Some ev)
   \<and> (acceptanceGate inference \<and> post_id post \<in> post_id ` set (posts s) \<longrightarrow>
        persistEvent c inference post organizer s =
          (Inr None,
           s\<lparr> events := events s @ [newEvent c inference post organizer],
              posts := map (\<lambda>p. if post_id p = post_id post
                                  then p\<lparr>completedAt := Some (nowDate c)\<rparr> else p) (posts s) \<rparr>))
   \<and> fst (extractEventFromPost E organizer post s) \<noteq> Inr (Some ev)
   \<and> fst (handleInstagramPost E organizer apiPost s) \<noteq> Inr (Some ev)
   \<and> fst (ingestEventsForOrganizer E organizer s) = []
   \<and> fst (scrapeAllInstagramEvents E sources s) = map (\<lambda>source. (source_username source, 0)) sources
   \<and> last (logged (snd (scrapeAllInstagramEvents E sources s)))
       = LogInfoCompleted (map (\<lambda>source. (source_username source, 0)) sources)
   \<and> (fst (scrapeInstagramEventsForUser E sources user s) = Inr () \<longrightarrow>
        last (logged (snd (scrapeInstagramEventsForUser E sources user s)))
          = LogInfoCompletedUser 0 user)"
proof -
  obtain counts s1 where c: "countsBySource E sources (writeLog LogInfoStart s) = (counts, s1)"
    by (cases "countsBySource E sources (writeLog LogInfoStart s)")
  have counts: "counts = map (\<lambda>source. (source_username source, 0)) sources"
    using countsBySource_counts [of E sources "writeLog LogInfoStart s"] c by simp
  have all: "scrapeAllInstagramEvents E sources s = (counts, writeLog (LogInfoCompleted counts) s1)"
    using c by (simp add: scrapeAllInstagramEvents_def)
  have user: "last (logged (snd (scrapeInstagramEventsForUser E sources user s)))
      = LogInfoCompletedUser 0 user"
    if "fst (scrapeInstagramEventsForUser E sources user s) = Inr ()"
  proof (cases "filter (\<lambda>source. source_username source = user) sources")
    case Nil
    then show ?thesis using that by (simp add: scrapeInstagramEventsForUser_def Let_def)
  next
    case (Cons source rest)
    obtain organizer' s2 where g: "getOrInsertOrganizer source (writeLog (LogInfoStartUser user) s) = (organizer', s2)"
      by (cases "getOrInsertOrganizer source (writeLog (LogInfoStartUser user) s)")
    obtain evs s3 where i: "ingestEventsForOrganizer E organizer' s2 = (evs, s3)"
      by (cases "ingestEventsForOrganizer E organizer' s2")
    have "evs = []" using ingest_empty [of E organizer' s2] i by simp
    then show ?thesis using Cons g i
      by (simp add: scrapeInstagramEventsForUser_def Let_def writeLog_def)
  qed
  show ?thesis
    using persistEvent_null [of c inference post organizer s ev]
      persistEvent_accepted [of inference post s c organizer]
      extractEvent_null [of E organizer post s ev] handle_null [of E organizer apiPost s ev]
      ingest_empty [of E organizer s] all counts user
    by (simp add: writeLog_def)
qed

theorem events_are_never_returned_witness:
  "persistEvent winter2023 liveMusicResult demoPost demoOrganizer storeWithPost =
     (Inr None,
      storeWithPost\<lparr> events := events storeWithPost
                        @ [newEvent winter2023 liveMusicResult demoPost demoOrganizer],
         posts := map (\<lambda>p. if post_id p = post_id demoPost
                            then p\<lparr>completedAt := Some (nowDate winter2023)\<rparr> else p)
                    (posts storeWithPost) \<rparr>)
   \<and> last (logged (snd (scrapeInstagramEventsForUser demoEnv demoSources ''demo_user'' storeWithPost)))
       = LogInfoCompletedUser 0 ''demo_user''"
proof -
  have gate: "acceptanceGate liveMusicResult" by (simp add: acceptanceGate_def example_fields)
  have stored: "post_id demoPost \<in> post_id ` set (posts storeWithPost)"
    by (simp add: storeWithPost_def)
  have returns: "fst (scrapeInstagramEventsForUser demoEnv demoSources ''demo_user'' storeWithPost) = Inr ()"
    by (simp add: scrapeInstagramEventsForUser_def demoSources_def Let_def split: prod.splits)
  show ?thesis
    using events_are_never_returned [where c = winter2023 and inference = liveMusicResult
        and post = demoPost and organizer = demoOrganizer and s = storeWithPost
        and ev = "newEvent winter2023 liveMusicResult demoPost demoOrganizer"
        and E = demoEnv and apiPost = apiPost1 and sources = demoSources
        and user = "''demo_user''"] gate stored returns
    by simp
qed

section \<open>Rate limit\<close>

lemma countsBySource_names:
  "map fst (fst (countsBySource E sources s)) = map source_username sources"
  by (simp add: countsBySource_counts comp_def)

lemma getOrInsertOrganizer_result:
  "username (fst (getOrInsertOrganizer source s)) = source_username source"
  "posts (snd (getOrInsertOrganizer source s)) = posts s"
proof -
  show "username (fst (getOrInsertOrganizer source s)) = source_username source"
  proof (cases "find (\<lambda>organizer. username organizer = source_username source) (organizers s)")
    case None
    then show ?thesis by (simp add: getOrInsertOrganizer_def Let_def)
  next
    case (Some organizer)
    then have "username organizer = source_username source" by (auto simp add: find_Some_iff)
    then show ?thesis using Some by (simp add: getOrInsertOrganizer_def)
  qed
  show "posts (snd (getOrInsertOrganizer source s)) = posts s"
    by (simp add: getOrInsertOrganizer_def Let_def split: option.splits)
qed

lemma fetchPosts_posts: "posts (snd (fetchPosts E organizer s)) = posts s"
  by (auto simp add: fetchPosts_def writeLog_def split: sum.splits option.splits)

text \<open>A fetch that the source answers below the limit, with a list of posts.\<close>

lemma fetchPosts_answered:
  assumes "fetch E (username organizer) = Inr response"
    and "\<not> (\<exists>appUsage. x_app_usage response = Some appUsage
          \<and> (call_count appUsage \<ge> 100 \<or> total_cputime appUsage \<ge> 100
               \<or> total_time appUsage \<ge> 100))"
    and "json response = Inr responseBody" and "body_error responseBody = None"
    and "media_data responseBody = Some data"
  shows "fst (fetchPosts E organizer s) = Inr data"
  using assms by (cases "x_app_usage response") (auto simp add: fetchPosts_def rateLimitHit_def)

lemma ingest_ids:
  "post_id ` set (posts s) \<subseteq> post_id ` set (posts (snd (ingestEventsForOrganizer E organizer s)))"
  "fst (fetchPosts E organizer s) = Inr fetched \<Longrightarrow>
     api_id ` set fetched \<subseteq> post_id ` set (posts (snd (ingestEventsForOrganizer E organizer s)))"
proof -
  obtain r1 s1 where f: "fetchPosts E organizer s = (r1, s1)" by (cases "fetchPosts E organizer s")
  have p1: "posts s1 = posts s" using fetchPosts_posts [of E organizer s] f by simp
  have "post_id ` set (posts s) \<subseteq> post_id ` set (posts (snd (ingestEventsForOrganizer E organizer s)))
      \<and> (r1 = Inr fetched \<longrightarrow>
          api_id ` set fetched \<subseteq> post_id ` set (posts (snd (ingestEventsForOrganizer E organizer s))))"
  proof (cases r1)
    case (Inl e)
    then show ?thesis using f p1 by (simp add: ingestEventsForOrganizer_def writeLog_def)
  next
    case (Inr posts0)
    obtain results s2 where h: "handlePosts E organizer posts0 s1 = (results, s2)"
      by (cases "handlePosts E organizer posts0 s1")
    have i: "post_id ` set (posts s1) \<union> api_id ` set posts0 \<subseteq> post_id ` set (posts s2)"
      using handlePosts_ids [of s1 posts0 E organizer] h by simp
    have "posts (snd (ingestEventsForOrganizer E organizer s)) = posts s2"
      using f Inr h
      by (cases "promiseAll results") (simp_all add: ingestEventsForOrganizer_def writeLog_def)
    then show ?thesis using i p1 Inr by auto
  qed
  then show "post_id ` set (posts s) \<subseteq> post_id ` set (posts (snd (ingestEventsForOrganizer E organizer s)))"
    and "fst (fetchPosts E organizer s) = Inr fetched \<Longrightarrow>
     api_id ` set fetched \<subseteq> post_id ` set (posts (snd (ingestEventsForOrganizer E organizer s)))"
    using f by simp_all
qed

lemma countsBySource_keeps:
  "post_id ` set (posts s) \<subseteq> post_id ` set (posts (snd (countsBySource E sources s)))"
proof (induction sources arbitrary: s)
  case Nil
  then show ?case by simp
next
  case (Cons source rest)
  obtain organizer s1 where g: "getOrInsertOrganizer source s = (organizer, s1)"
    by (cases "getOrInsertOrganizer source s")
  obtain evs s2 where i: "ingestEventsForOrganizer E organizer s1 = (evs, s2)"
    by (cases "ingestEventsForOrganizer E organizer s1")
  obtain counts s3 where c: "countsBySource E rest s2 = (counts, s3)"
    by (cases "countsBySource E rest s2")
  have "posts s1 = posts s" using getOrInsertOrganizer_result(2) [of source s] g by simp
  moreover have "post_id ` set (posts s1) \<subseteq> post_id ` set (posts s2)"
    using ingest_ids(1) [of s1 E organizer] i by simp
  moreover have "post_id ` set (posts s2) \<subseteq> post_id ` set (posts s3)"
    using Cons.IH [of s2] c by simp
  ultimately show ?case using g i c by auto
qed

text \<open>Every source of the run is ingested, whatever happens to the others: the posts
  fetched for it are in the store at the end.\<close>

lemma countsBySource_ingests:
  assumes "source \<in> set sources"
    and "\<And>organizer s0. username organizer = source_username source
           \<Longrightarrow> fst (fetchPosts E organizer s0) = Inr fetched"
  shows "api_id ` set fetched \<subseteq> post_id ` set (posts (snd (countsBySource E sources s)))"
  using assms(1)
proof (induction sources arbitrary: s)
  case Nil
  then show ?case by simp
next
  case (Cons first rest)
  obtain organizer s1 where g: "getOrInsertOrganizer first s = (organizer, s1)"
    by (cases "getOrInsertOrganizer first s")
  obtain evs s2 where i: "ingestEventsForOrganizer E organizer s1 = (evs, s2)"
    by (cases "ingestEventsForOrganizer E organizer s1")
  obtain counts s3 where c: "countsBySource E rest s2 = (counts, s3)"
    by (cases "countsBySource E rest s2")
  have final: "snd (countsBySource E (first # rest) s) = s3" using g i c by simp
  show ?case
  proof (cases "source = first")
    case True
    have "username organizer = source_username source"
      using getOrInsertOrganizer_result(1) [of first s] g True by simp
    then have "fst (fetchPosts E organizer s1) = Inr fetched" by (rule assms(2))
    then have "api_id ` set fetched \<subseteq> post_id ` set (posts s2)"
      using ingest_ids(2) [of E organizer s1 fetched] i by simp
    moreover have "post_id ` set (posts s2) \<subseteq> post_id ` set (posts s3)"
      using countsBySource_keeps [of s2 E rest] c by simp
    ultimately show ?thesis unfolding final by blast
  next
    case False
    then have "source \<in> set rest" using Cons.prems by simp
    then show ?thesis unfolding final using Cons.IH [of s2] c by simp
  qed
qed

text \<open>
  C8. When the post source answers, \<^verbatim>\<open>fetchPosts\<close> throws the rate-limit error if and
  only if the response carries a usage signal in which the call count, the CPU time or
  the total time is at least 100; with no signal the fetch goes on to the body. The
  error is caught in \<^verbatim>\<open>ingestEventsForOrganizer\<close>, which logs it with the user name
  and returns the empty list. The run over all sources reports a count for every
  source, and it ingests every source whatever happens to the others: for a source of
  the run whose own fetch is answered below the limit with a list of posts, all these
  posts are in the store at the end of the run.
\<close>

theorem rate_limit_halts_organizer:
  assumes response: "fetch E (username organizer) = Inr response"
  shows "((\<exists>calls cpu time. fst (fetchPosts E organizer s) = Inl (RateLimitError calls cpu time))
          \<longleftrightarrow> (\<exists>appUsage. x_app_usage response = Some appUsage
                \<and> (call_count appUsage \<ge> 100 \<or> total_cputime appUsage \<ge> 100
                     \<or> total_time appUsage \<ge> 100)))
       \<and> (x_app_usage response = None \<and> json response = Inr responseBody
            \<and> body_error responseBody = None \<and> media_data responseBody = Some data
          \<longrightarrow> fetchPosts E organizer s = (Inr data, s))
       \<and> (x_app_usage response = Some appUsage
            \<and> (call_count appUsage \<ge> 100 \<or> total_cputime appUsage \<ge> 100
                 \<or> total_time appUsage \<ge> 100)
          \<longrightarrow> ingestEventsForOrganizer E organizer s
              = ([], writeLog (LogErrorIngesting
                        (RateLimitError (call_count appUsage) (total_cputime appUsage)
                           (total_time appUsage)) (username organizer)) s))
       \<and> map fst (fst (scrapeAllInstagramEvents E sources s)) = map source_username sources
       \<and> (sibling \<in> set sources
            \<and> fetch E (source_username sibling) = Inr siblingResponse
            \<and> \<not> (\<exists>siblingUsage. x_app_usage siblingResponse = Some siblingUsage
                  \<and> (call_count siblingUsage \<ge> 100 \<or> total_cputime siblingUsage \<ge> 100
                       \<or> total_time siblingUsage \<ge> 100))
            \<and> json siblingResponse = Inr siblingBody \<and> body_error siblingBody = None
            \<and> media_data siblingBody = Some siblingPosts
          \<longrightarrow> api_id ` set siblingPosts
                \<subseteq> post_id ` set (posts (snd (scrapeAllInstagramEvents E sources s))))"
proof -
  have a: "(\<exists>calls cpu time. fst (fetchPosts E organizer s) = Inl (RateLimitError calls cpu time))
          \<longleftrightarrow> (\<exists>appUsage. x_app_usage response = Some appUsage
                \<and> (call_count appUsage \<ge> 100 \<or> total_cputime appUsage \<ge> 100
                     \<or> total_time appUsage \<ge> 100))"
  proof (cases "x_app_usage response")
    case None
    then show ?thesis using response
      by (simp add: fetchPosts_def split: sum.splits option.splits)
  next
    case (Some u)
    show ?thesis
    proof (cases "rateLimitHit u")
      case True
      then show ?thesis using response Some by (simp add: fetchPosts_def rateLimitHit_def)
    next
      case False
      then show ?thesis using response Some
        by (simp add: fetchPosts_def rateLimitHit_def split: sum.splits option.splits)
    qed
  qed
  have b: "fetchPosts E organizer s = (Inr data, s)"
    if "x_app_usage response = None" "json response = Inr responseBody"
      "body_error responseBody = None" "media_data responseBody = Some data"
    using response that by (simp add: fetchPosts_def)
  have c: "ingestEventsForOrganizer E organizer s
      = ([], writeLog (LogErrorIngesting
                (RateLimitError (call_count appUsage) (total_cputime appUsage)
                   (total_time appUsage)) (username organizer)) s)"
    if "x_app_usage response = Some appUsage"
      "call_count appUsage \<ge> 100 \<or> total_cputime appUsage \<ge> 100 \<or> total_time appUsage \<ge> 100"
    using response that
    by (simp add: ingestEventsForOrganizer_def fetchPosts_def rateLimitHit_def)
  obtain counts s1 where k: "countsBySource E sources (writeLog LogInfoStart s) = (counts, s1)"
    by (cases "countsBySource E sources (writeLog LogInfoStart s)")
  have final: "posts (snd (scrapeAllInstagramEvents E sources s)) = posts s1"
    using k by (simp add: scrapeAllInstagramEvents_def writeLog_def)
  have d: "map fst (fst (scrapeAllInstagramEvents E sources s)) = map source_username sources"
    using countsBySource_names [of E sources "writeLog LogInfoStart s"] k
    by (simp add: scrapeAllInstagramEvents_def)
  have e: "api_id ` set siblingPosts
      \<subseteq> post_id ` set (posts (snd (scrapeAllInstagramEvents E sources s)))"
    if member: "sibling \<in> set sources"
      and answered: "fetch E (source_username sibling) = Inr siblingResponse"
        "\<not> (\<exists>siblingUsage. x_app_usage siblingResponse = Some siblingUsage
            \<and> (call_count siblingUsage \<ge> 100 \<or> total_cputime siblingUsage \<ge> 100
                 \<or> total_time siblingUsage \<ge> 100))"
        "json siblingResponse = Inr siblingBody" "body_error siblingBody = None"
        "media_data siblingBody = Some siblingPosts"
  proof -
    have "fst (fetchPosts E organizer' s0) = Inr siblingPosts"
      if "username organizer' = source_username sibling" for organizer' s0
      using answered that by (intro fetchPosts_answered [of E organizer' siblingResponse siblingBody]) simp_all
    then have "api_id ` set siblingPosts
        \<subseteq> post_id ` set (posts (snd (countsBySource E sources (writeLog LogInfoStart s))))"
      using member by (intro countsBySource_ingests) simp_all
    then show ?thesis using final k by simp
  qed
  show ?thesis using a b c d e by blast
qed

lemma demo_run:
  "map postID (events (snd (scrapeAllInstagramEvents demoEnv demoSources emptyStore))) = [''p1'']"
  by code_simp

theorem rate_limit_halts_organizer_witness:
  "(\<exists>calls cpu time. fst (fetchPosts demoEnv busyOrganizer emptyStore)
       = Inl (RateLimitError calls cpu time))
   \<and> ingestEventsForOrganizer demoEnv busyOrganizer emptyStore
       = ([], writeLog (LogErrorIngesting (RateLimitError 100 25 25) ''busy_user'') emptyStore)
   \<and> map fst (fst (scrapeAllInstagramEvents demoEnv demoSources emptyStore))
       = [''busy_user'', ''demo_user'']
   \<and> api_id ` set [apiPost2, apiPost1]
       \<subseteq> post_id ` set (posts (snd (scrapeAllInstagramEvents demoEnv demoSources emptyStore)))
   \<and> map postID (events (snd (scrapeAllInstagramEvents demoEnv demoSources emptyStore)))
       = [''p1'']"
proof -
  have response: "fetch demoEnv (username busyOrganizer) = Inr busyResponse"
    by (simp add: demoEnv_def busyOrganizer_def)
  have usage: "x_app_usage busyResponse
      = Some \<lparr> call_count = 100, total_cputime = 25, total_time = 25 \<rparr>"
    by (simp add: busyResponse_def)
  have member: "\<lparr> source_username = ''demo_user'', source_city = ''Oakland'',
        context_clues = [''live'', ''music''] \<rparr> \<in> set demoSources"
    by (simp add: demoSources_def)
  have answered: "fetch demoEnv ''demo_user'' = Inr demoResponse"
    "\<not> (\<exists>siblingUsage. x_app_usage demoResponse = Some siblingUsage
        \<and> (call_count siblingUsage \<ge> 100 \<or> total_cputime siblingUsage \<ge> 100
             \<or> total_time siblingUsage \<ge> 100))"
    "json demoResponse = Inr \<lparr> body_error = None, media_data = Some [apiPost2, apiPost1] \<rparr>"
    by (simp_all add: demoEnv_def demoResponse_def)
  show ?thesis
    using rate_limit_halts_organizer [OF response, where s = emptyStore and sources = demoSources
        and appUsage = "\<lparr> call_count = 100, total_cputime = 25, total_time = 25 \<rparr>"
        and sibling = "\<lparr> source_username = ''demo_user'', source_city = ''Oakland'',
              context_clues = [''live'', ''music''] \<rparr>"
        and siblingResponse = demoResponse
        and siblingBody = "\<lparr> body_error = None, media_data = Some [apiPost2, apiPost1] \<rparr>"
        and siblingPosts = "[apiPost2, apiPost1]"]
      usage member answered demo_run
    by (simp add: demoSources_def busyOrganizer_def)
qed

section \<open>Failure of one post\<close>

lemma promiseAll_rejects:
  "Inl e' \<in> set rs \<Longrightarrow> \<exists>e. promiseAll rs = Inl e \<and> Inl e \<in> set rs"
proof (induction rs)
  case Nil
  then show ?case by simp
next
  case (Cons r rs)
  show ?case
  proof (cases r)
    case (Inl e)
    then show ?thesis by auto
  next
    case (Inr v)
    then have "Inl e' \<in> set rs" using Cons.prems by auto
    then obtain e where "promiseAll rs = Inl e" "Inl e \<in> set rs" using Cons.IH by blast
    then show ?thesis using Inr by auto
  qed
qed

text \<open>
  C2, as stated, fails: nothing catches a failure at the boundary of a post. In the
  example the inference for the post \<^verbatim>\<open>p2\<close> lacks the title; its handler rejects, the
  rejection reaches the \<^verbatim>\<open>catch\<close> of \<^verbatim>\<open>ingestEventsForOrganizer\<close>, which logs it for
  the organizer and returns the empty list. The handler of the sibling \<^verbatim>\<open>p1\<close> has run
  and has stored its event.
\<close>

theorem post_failure_reaches_organizer_counterexample:
  "fst (handleInstagramPost demoEnv demoOrganizer apiPost2 emptyStore)
     = Inl (Error ''JSON does not contain expected fields'')
   \<and> fst (ingestEventsForOrganizer demoEnv demoOrganizer emptyStore) = []
   \<and> logged (snd (ingestEventsForOrganizer demoEnv demoOrganizer emptyStore))
       = [LogDebugRateLimit ''demo_user'', LogDebugPrompt ''p2'', LogDebugPrompt ''p1'',
          LogErrorIngesting (Error ''JSON does not contain expected fields'') ''demo_user'']
   \<and> map postID (events (snd (ingestEventsForOrganizer demoEnv demoOrganizer emptyStore)))
       = [''p1'']"
  by code_simp

text \<open>
  C2, amended. A hard failure in the handler of one post is caught at the boundary of
  the organizer, not of the post: when a handler rejects, \<^verbatim>\<open>ingestEventsForOrganizer\<close>
  logs a rejection with the organizer's user name and returns the empty list. The
  handlers of all fetched posts have been started all the same and run to their end, so
  every fetched post has its record in the store.
\<close>

theorem post_failure_reaches_organizer:
  assumes fetched: "fetchPosts E organizer s = (Inr fetched, s1)"
    and fails: "Inl e' \<in> set (fst (handlePosts E organizer fetched s1))"
  shows "\<exists>e. Inl e \<in> set (fst (handlePosts E organizer fetched s1))
       \<and> ingestEventsForOrganizer E organizer s
           = ([], writeLog (LogErrorIngesting e (username organizer))
                    (snd (handlePosts E organizer fetched s1)))
       \<and> api_id ` set fetched
           \<subseteq> post_id ` set (posts (snd (ingestEventsForOrganizer E organizer s)))"
proof -
  obtain results s2 where h: "handlePosts E organizer fetched s1 = (results, s2)"
    by (cases "handlePosts E organizer fetched s1")
  obtain e where e: "promiseAll results = Inl e" "Inl e \<in> set results"
    using promiseAll_rejects [of e' results] fails h by auto
  have i: "ingestEventsForOrganizer E organizer s
      = ([], writeLog (LogErrorIngesting e (username organizer)) s2)"
    using fetched h e by (simp add: ingestEventsForOrganizer_def)
  have "api_id ` set fetched \<subseteq> post_id ` set (posts s2)"
    using handlePosts_ids [of s1 fetched E organizer] h by simp
  then show ?thesis using e i h by (auto simp add: writeLog_def)
qed

theorem post_failure_reaches_organizer_witness:
  "\<exists>e. Inl e \<in> set (fst (handlePosts demoEnv demoOrganizer [apiPost2, apiPost1]
                              (writeLog (LogDebugRateLimit ''demo_user'') emptyStore)))
     \<and> ingestEventsForOrganizer demoEnv demoOrganizer emptyStore
         = ([], writeLog (LogErrorIngesting e (username demoOrganizer))
                  (snd (handlePosts demoEnv demoOrganizer [apiPost2, apiPost1]
                          (writeLog (LogDebugRateLimit ''demo_user'') emptyStore))))
     \<and> api_id ` set [apiPost2, apiPost1]
         \<subseteq> post_id ` set (posts (snd (ingestEventsForOrganizer demoEnv demoOrganizer emptyStore)))"
proof -
  have fetched: "fetchPosts demoEnv demoOrganizer emptyStore
      = (Inr [apiPost2, apiPost1], writeLog (LogDebugRateLimit ''demo_user'') emptyStore)"
    by (simp add: fetchPosts_def demoEnv_def demoOrganizer_def demoResponse_def rateLimitHit_def)
  have fails: "Inl (Error ''JSON does not contain expected fields'')
      \<in> set (fst (handlePosts demoEnv demoOrganizer [apiPost2, apiPost1]
                    (writeLog (LogDebugRateLimit ''demo_user'') emptyStore)))"
    by code_simp
  show ?thesis by (rule post_failure_reaches_organizer [OF fetched fails])
qed

section \<open>Fixup\<close>

lemma map_of_assign: "map_of (assign k v found) = (map_of found)(k \<mapsto> v)"
  by (induction found) auto

lemma pushPosts_keeps:
  "pushPosts ps d = Inr d' \<Longrightarrow> map_of d k = Some (organization, found)
     \<Longrightarrow> \<exists>found'. map_of d' k = Some (organization, found') \<and> set found \<subseteq> set found'"
proof (induction ps arbitrary: d found)
  case Nil
  then show ?case by auto
next
  case (Cons post rest)
  obtain org0 found0 where l: "map_of d (organizerId post) = Some (org0, found0)"
    using Cons.prems(1) by (auto split: option.splits)
  let ?d1 = "assign (organizerId post) (org0, found0 @ [post]) d"
  have r: "pushPosts rest ?d1 = Inr d'" using Cons.prems(1) l by simp
  show ?case
  proof (cases "k = organizerId post")
    case True
    then have "map_of ?d1 k = Some (organization, found @ [post])"
      using l Cons.prems(2) by (simp add: map_of_assign)
    then obtain found' where "map_of d' k = Some (organization, found')"
        "set (found @ [post]) \<subseteq> set found'"
      using Cons.IH [OF r] by blast
    then show ?thesis by auto
  next
    case False
    then have "map_of ?d1 k = Some (organization, found)"
      using Cons.prems(2) by (simp add: map_of_assign)
    then show ?thesis using Cons.IH [OF r] by blast
  qed
qed

lemma pushPosts_found:
  "pushPosts ps d = Inr d' \<Longrightarrow> post \<in> set ps
     \<Longrightarrow> \<exists>organization found. map_of d' (organizerId post) = Some (organization, found)
           \<and> post \<in> set found"
proof (induction ps arbitrary: d)
  case Nil
  then show ?case by simp
next
  case (Cons p rest)
  obtain org0 found0 where l: "map_of d (organizerId p) = Some (org0, found0)"
    using Cons.prems(1) by (auto split: option.splits)
  let ?d1 = "assign (organizerId p) (org0, found0 @ [p]) d"
  have r: "pushPosts rest ?d1 = Inr d'" using Cons.prems(1) l by simp
  show ?case
  proof (cases "post = p")
    case True
    have "map_of ?d1 (organizerId p) = Some (org0, found0 @ [p])" by (simp add: map_of_assign)
    then obtain found' where "map_of d' (organizerId p) = Some (org0, found')"
        "set (found0 @ [p]) \<subseteq> set found'"
      using pushPosts_keeps [OF r] by blast
    then show ?thesis using True by auto
  next
    case False
    then have "post \<in> set rest" using Cons.prems(2) by simp
    then show ?thesis using Cons.IH [OF r] by blast
  qed
qed

lemma extractPosts_requests:
  "ocrRequests (snd (extractPosts E organization found s))
     = ocrRequests s @ concat (map (requested E) found)"
proof (induction found arbitrary: s)
  case Nil
  then show ?case by simp
next
  case (Cons post rest)
  obtain r s1 where e: "extractEventFromPost E organization post s = (r, s1)"
    by (cases "extractEventFromPost E organization post s")
  obtain rs s2 where t: "extractPosts E organization rest s1 = (rs, s2)"
    by (cases "extractPosts E organization rest s1")
  have "ocrRequests s1 = ocrRequests s @ requested E post"
    using extractEvent_ocrRequests [of E organization post s] e by simp
  moreover have "ocrRequests s2 = ocrRequests s1 @ concat (map (requested E) rest)"
    using Cons.IH [of s1] t by simp
  ultimately show ?case using e t by simp
qed

lemma extractGroups_requests:
  "ocrRequests (extractGroups E groups s)
     = ocrRequests s @ concat (map (\<lambda>group. concat (map (requested E) (snd group))) groups)"
proof (induction groups arbitrary: s)
  case Nil
  then show ?case by simp
next
  case (Cons group rest)
  obtain organization found where g: "group = (organization, found)" by (cases group)
  show ?case
    using Cons.IH [of "snd (extractPosts E organization found s)"]
      extractPosts_requests [of E organization found s] g
    by simp
qed

lemma concat_map_member:
  "x \<in> set xs \<Longrightarrow> \<exists>before after. concat (map f xs) = before @ f x @ after"
proof -
  assume "x \<in> set xs"
  then obtain ys zs where "xs = ys @ x # zs" by (meson split_list)
  then have "concat (map f xs) = concat (map f ys) @ f x @ concat (map f zs)" by simp
  then show ?thesis by blast
qed

lemma fetchOcrResults_result:
  "fst (fetchOcrResults E urls s) = fst (fetchOcrResults E urls s')"
  by (simp add: fetchOcrResults_def Let_def split: sum.splits)

lemma extractText_result:
  "fst (extractTextFromPostImages E post s) = fst (extractTextFromPostImages E post s')"
proof (cases "mediaUrlsJson post")
  case None
  then show ?thesis by (simp add: extractTextFromPostImages_def)
next
  case (Some urls)
  obtain r s1 where a: "fetchOcrResults E urls s = (r, s1)" by (cases "fetchOcrResults E urls s")
  obtain r' s1' where b: "fetchOcrResults E urls s' = (r', s1')" by (cases "fetchOcrResults E urls s'")
  have "r = r'" using fetchOcrResults_result [of E urls s s'] a b by simp
  then show ?thesis using Some a b
    by (cases r') (simp_all add: extractTextFromPostImages_def)
qed

lemma fetchOcrResults_logged: "logged (snd (fetchOcrResults E urls s)) = logged s"
  by (simp add: fetchOcrResults_def Let_def split: sum.splits)

lemma extractText_logged: "logged (snd (extractTextFromPostImages E post s)) = logged s"
proof (cases "mediaUrlsJson post")
  case None
  then show ?thesis by (simp add: extractTextFromPostImages_def)
next
  case (Some urls)
  obtain r s1 where a: "fetchOcrResults E urls s = (r, s1)" by (cases "fetchOcrResults E urls s")
  then show ?thesis using Some fetchOcrResults_logged [of E urls s]
    by (cases r) (simp_all add: extractTextFromPostImages_def)
qed

lemma runInference_logged:
  "logged (snd (runInferenceOnPost E organizer post ocr s))
     = logged s @ [LogDebugPrompt (instagramInitialPrompt E organizer post ocr)]"
  by (simp add: runInferenceOnPost_def writeLog_def Let_def split: sum.splits option.splits)

lemma persistEvent_logged:
  "logged (snd (persistEvent c inference post organizer s)) = logged s"
  by (simp add: persistEvent_def updateCompletedAt_def Let_def)

text \<open>The log of an extraction: nothing when text detection fails, and the prompt of
  the inference otherwise.\<close>

lemma extractEvent_logged:
  "logged (snd (extractEventFromPost E organizer post s)) =
     logged s @ (case fst (extractTextFromPostImages E post s) of
                   Inl e \<Rightarrow> []
                 | Inr imageText \<Rightarrow> [LogDebugPrompt (instagramInitialPrompt E organizer post imageText)])"
proof (cases rule: extractEvent_cases [of E post s organizer])
  case (ocr e s1)
  then show ?thesis using extractText_logged [of E post s] by simp
next
  case (inference imageText s1 e s2)
  then show ?thesis
    using extractText_logged [of E post s] runInference_logged [of E organizer post imageText s1]
    by simp
next
  case (no_content imageText s1 s2)
  then show ?thesis
    using extractText_logged [of E post s] runInference_logged [of E organizer post imageText s1]
    by simp
next
  case (persist imageText s1 inference s2)
  then show ?thesis
    using extractText_logged [of E post s] runInference_logged [of E organizer post imageText s1]
      persistEvent_logged [of E inference post organizer s2]
    by simp
qed

lemma extractPosts_logged:
  "\<exists>new. logged (snd (extractPosts E organization found s)) = logged s @ new"
proof (induction found arbitrary: s)
  case Nil
  then show ?case by simp
next
  case (Cons post rest)
  obtain r s1 where e: "extractEventFromPost E organization post s = (r, s1)"
    by (cases "extractEventFromPost E organization post s")
  obtain rs s2 where t: "extractPosts E organization rest s1 = (rs, s2)"
    by (cases "extractPosts E organization rest s1")
  obtain n1 where "logged s1 = logged s @ n1"
    using extractEvent_logged [of E organization post s] e by simp
  moreover obtain n2 where "logged s2 = logged s1 @ n2" using Cons.IH [of s1] t by auto
  ultimately show ?case using e t by simp
qed

lemma extractPosts_prompt:
  assumes "post \<in> set found"
    and "\<And>s0. fst (extractTextFromPostImages E post s0) = Inr imageText"
  shows "\<exists>before after. logged (snd (extractPosts E organization found s))
     = logged s @ before @ [LogDebugPrompt (instagramInitialPrompt E organization post imageText)] @ after"
  using assms(1)
proof (induction found arbitrary: s)
  case Nil
  then show ?case by simp
next
  case (Cons p rest)
  obtain r s1 where e: "extractEventFromPost E organization p s = (r, s1)"
    by (cases "extractEventFromPost E organization p s")
  obtain rs s2 where t: "extractPosts E organization rest s1 = (rs, s2)"
    by (cases "extractPosts E organization rest s1")
  obtain n1 where n1: "logged s1 = logged s @ n1"
    using extractEvent_logged [of E organization p s] e by simp
  show ?case
  proof (cases "post = p")
    case True
    have "logged s1 = logged s @ [LogDebugPrompt (instagramInitialPrompt E organization post imageText)]"
      using extractEvent_logged [of E organization p s] e True assms(2) [of s] by simp
    moreover obtain n2 where "logged s2 = logged s1 @ n2"
      using extractPosts_logged [of E organization rest s1] t by auto
    ultimately have "logged s2 = logged s @ [] @ [LogDebugPrompt (instagramInitialPrompt E organization post imageText)] @ n2"
      by simp
    then show ?thesis using e t by (simp del: append_Nil) blast
  next
    case False
    then have "post \<in> set rest" using Cons.prems by simp
    then obtain b a where "logged s2 = logged s1 @ b @ [LogDebugPrompt (instagramInitialPrompt E organization post imageText)] @ a"
      using Cons.IH [of s1] t by auto
    then have "logged s2 = logged s @ (n1 @ b) @ [LogDebugPrompt (instagramInitialPrompt E organization post imageText)] @ a"
      using n1 by simp
    then show ?thesis using e t by (simp del: append_assoc) blast
  qed
qed

lemma extractGroups_logged: "\<exists>new. logged (extractGroups E groups s) = logged s @ new"
proof (induction groups arbitrary: s)
  case Nil
  then show ?case by simp
next
  case (Cons group rest)
  obtain organization found where g: "group = (organization, found)" by (cases group)
  obtain n1 where "logged (snd (extractPosts E organization found s)) = logged s @ n1"
    using extractPosts_logged by blast
  moreover obtain n2 where "logged (extractGroups E rest (snd (extractPosts E organization found s)))
      = logged (snd (extractPosts E organization found s)) @ n2"
    using Cons.IH by blast
  ultimately show ?case using g by simp
qed

lemma extractGroups_prompt:
  assumes "(organization, found) \<in> set groups" and "post \<in> set found"
    and "\<And>s0. fst (extractTextFromPostImages E post s0) = Inr imageText"
  shows "\<exists>before after. logged (extractGroups E groups s)
     = logged s @ before @ [LogDebugPrompt (instagramInitialPrompt E organization post imageText)] @ after"
  using assms(1)
proof (induction groups arbitrary: s)
  case Nil
  then show ?case by simp
next
  case (Cons group rest)
  obtain org0 found0 where g: "group = (org0, found0)" by (cases group)
  let ?s1 = "snd (extractPosts E org0 found0 s)"
  show ?case
  proof (cases "group = (organization, found)")
    case True
    obtain b a where "logged ?s1
        = logged s @ b @ [LogDebugPrompt (instagramInitialPrompt E organization post imageText)] @ a"
      using extractPosts_prompt [OF assms(2,3), of organization s] True g by auto
    moreover obtain n2 where "logged (extractGroups E rest ?s1) = logged ?s1 @ n2"
      using extractGroups_logged by blast
    ultimately have "logged (extractGroups E rest ?s1)
        = logged s @ b @ [LogDebugPrompt (instagramInitialPrompt E organization post imageText)] @ (a @ n2)"
      by simp
    then show ?thesis using g by (simp del: append_assoc) blast
  next
    case False
    then have "(organization, found) \<in> set rest" using Cons.prems by simp
    then obtain b a where "logged (extractGroups E rest ?s1)
        = logged ?s1 @ b @ [LogDebugPrompt (instagramInitialPrompt E organization post imageText)] @ a"
      using Cons.IH by blast
    moreover obtain n1 where "logged ?s1 = logged s @ n1" using extractPosts_logged by blast
    ultimately have "logged (extractGroups E rest ?s1)
        = logged s @ (n1 @ b) @ [LogDebugPrompt (instagramInitialPrompt E organization post imageText)] @ a"
      by simp
    then show ?thesis using g by (simp del: append_assoc) blast
  qed
qed

lemma fold_assign_other:
  "k \<notin> organizer_id ` set orgs \<Longrightarrow>
     map_of (fold (\<lambda>organization. assign (organizer_id organization) (organization, [])) orgs d) k
       = map_of d k"
  by (induction orgs arbitrary: d) (simp_all add: map_of_assign)

lemma fold_assign_lookup:
  "distinct (map organizer_id orgs) \<Longrightarrow> organization \<in> set orgs \<Longrightarrow>
     map_of (fold (\<lambda>organization. assign (organizer_id organization) (organization, [])) orgs d)
       (organizer_id organization) = Some (organization, [])"
proof (induction orgs arbitrary: d)
  case Nil
  then show ?case by simp
next
  case (Cons first rest)
  show ?case
  proof (cases "organization = first")
    case True
    have "organizer_id first \<notin> organizer_id ` set rest" using Cons.prems(1) by simp
    then show ?thesis using True by (simp add: fold_assign_other map_of_assign)
  next
    case False
    then have "organization \<in> set rest" using Cons.prems(2) by simp
    then show ?thesis using Cons.IH [of "assign (organizer_id first) (first, []) d"] Cons.prems(1)
      by simp
  qed
qed

text \<open>The group in which \<^verbatim>\<open>findPosts\<close> puts a post: the one of its organizer.\<close>

lemma findPosts_group:
  assumes f: "findPosts eventsWhere s = Inr groups"
    and post: "post \<in> set (posts s)" "eventsWhere post"
    and organization: "organization \<in> set (organizers s)"
      "organizer_id organization = organizerId post"
    and keys: "distinct (map organizer_id (organizers s))"
  shows "\<exists>found. (organization, found) \<in> set (map snd groups) \<and> post \<in> set found"
proof -
  let ?d = "fold (\<lambda>organization. assign (organizer_id organization) (organization, []))
      (organizers s) []"
  have p: "pushPosts (filter eventsWhere (posts s)) ?d = Inr groups"
    using f by (simp add: findPosts_def)
  have "map_of ?d (organizerId post) = Some (organization, [])"
    using fold_assign_lookup [OF keys organization(1), of "[]"] organization(2) by simp
  then obtain found1 where k: "map_of groups (organizerId post) = Some (organization, found1)"
    using pushPosts_keeps [OF p] by blast
  have "post \<in> set (filter eventsWhere (posts s))" using post by simp
  then obtain organization2 found2 where
      m: "map_of groups (organizerId post) = Some (organization2, found2)" "post \<in> set found2"
    using pushPosts_found [OF p] by blast
  have "(organization, found1) \<in> set (map snd groups)" using map_of_SomeD [OF k] by force
  then show ?thesis using k m by auto
qed

lemma persistEvent_posts:
  "posts (snd (persistEvent c inference post organizer s)) =
     (if acceptanceGate inference \<and> post_id post \<in> post_id ` set (posts s)
      then map (\<lambda>p. if post_id p = post_id post then p\<lparr>completedAt := Some (nowDate c)\<rparr> else p)
             (posts s)
      else posts s)"
  by (simp add: persistEvent_def updateCompletedAt_def Let_def)

lemma extractEvent_events_grow:
  "\<exists>new. events (snd (extractEventFromPost E organizer post s)) = events s @ new"
proof (cases rule: extractEvent_cases [of E post s organizer])
  case (ocr e s1)
  then show ?thesis using extractText_state(2) [of E post s] by simp
next
  case (inference imageText s1 e s2)
  then show ?thesis
    using extractText_state(2) [of E post s] runInference_state(2) [of E organizer post imageText s1]
    by simp
next
  case (no_content imageText s1 s2)
  then show ?thesis
    using extractText_state(2) [of E post s] runInference_state(2) [of E organizer post imageText s1]
    by simp
next
  case (persist imageText s1 inference s2)
  then show ?thesis
    using extractText_state(2) [of E post s] runInference_state(2) [of E organizer post imageText s1]
      persistEvent_events [of E inference post organizer s2]
    by simp
qed

text \<open>A completion timestamp, once set by the run, stays.\<close>

lemma extractEvent_completed_kept:
  assumes "\<forall>p \<in> set (posts s). post_id p = i \<longrightarrow> completedAt p = Some (nowDate E)"
  shows "\<forall>p \<in> set (posts (snd (extractEventFromPost E organizer post s))).
           post_id p = i \<longrightarrow> completedAt p = Some (nowDate E)"
proof (cases rule: extractEvent_cases [of E post s organizer])
  case (ocr e s1)
  then show ?thesis using assms extractText_state(1) [of E post s] by simp
next
  case (inference imageText s1 e s2)
  then show ?thesis
    using assms extractText_state(1) [of E post s]
      runInference_state(1) [of E organizer post imageText s1]
    by simp
next
  case (no_content imageText s1 s2)
  then show ?thesis
    using assms extractText_state(1) [of E post s]
      runInference_state(1) [of E organizer post imageText s1]
    by simp
next
  case (persist imageText s1 inference s2)
  have "posts s2 = posts s"
    using persist extractText_state(1) [of E post s]
      runInference_state(1) [of E organizer post imageText s1]
    by simp
  then show ?thesis
    using assms persist(3) persistEvent_posts [of E inference post organizer s2] by auto
qed

text \<open>The extraction of a post that the store has, for which text detection, the
  inference service and the sanitizer give an accepted result.\<close>

lemma extractEvent_accepted:
  assumes detected: "fst (extractTextFromPostImages E post s) = Inr imageText"
    and answer: "executePrompt E (instagramInitialPrompt E organizer post imageText)
        = Inr (Some generatedJson)"
    and content: "generatedJson \<noteq> []"
    and sanitized: "postProcessOpenAiInstagramResponse (parse E) (nowYear E) generatedJson
        = Inr inference"
    and gate: "acceptanceGate inference"
    and stored: "post_id post \<in> post_id ` set (posts s)"
  shows "events (snd (extractEventFromPost E organizer post s))
           = events s @ [newEvent E inference post organizer]"
    and "\<forall>p \<in> set (posts (snd (extractEventFromPost E organizer post s))).
           post_id p = post_id post \<longrightarrow> completedAt p = Some (nowDate E)"
proof -
  obtain s1 where a: "extractTextFromPostImages E post s = (Inr imageText, s1)"
    using detected by (cases "extractTextFromPostImages E post s") simp
  have s1: "posts s1 = posts s" "events s1 = events s"
    using extractText_state(1,2) [of E post s] a by simp_all
  let ?s2 = "writeLog (LogDebugPrompt (instagramInitialPrompt E organizer post imageText)) s1"
  have b: "runInferenceOnPost E organizer post imageText s1 = (Inr (Some inference), ?s2)"
    using answer content sanitized by (simp add: runInferenceOnPost_def Let_def)
  have s2: "posts ?s2 = posts s" "events ?s2 = events s" using s1 by (simp_all add: writeLog_def)
  have e: "extractEventFromPost E organizer post s = persistEvent E inference post organizer ?s2"
    using a b by (simp add: extractEventFromPost_def)
  show "events (snd (extractEventFromPost E organizer post s))
      = events s @ [newEvent E inference post organizer]"
    unfolding e using gate s2 by (simp add: persistEvent_events)
  show "\<forall>p \<in> set (posts (snd (extractEventFromPost E organizer post s))).
      post_id p = post_id post \<longrightarrow> completedAt p = Some (nowDate E)"
    unfolding e using gate stored s2 by (auto simp add: persistEvent_posts)
qed

lemma extractPosts_ids:
  "map post_id (posts (snd (extractPosts E organization found s))) = map post_id (posts s)"
proof (induction found arbitrary: s)
  case Nil
  then show ?case by simp
next
  case (Cons post rest)
  obtain r s1 where e: "extractEventFromPost E organization post s = (r, s1)"
    by (cases "extractEventFromPost E organization post s")
  obtain rs s2 where t: "extractPosts E organization rest s1 = (rs, s2)"
    by (cases "extractPosts E organization rest s1")
  show ?case
    using extractEvent_ids [of E organization post s] Cons.IH [of s1] e t by simp
qed

lemma extractGroups_ids:
  "map post_id (posts (extractGroups E groups s)) = map post_id (posts s)"
proof (induction groups arbitrary: s)
  case Nil
  then show ?case by simp
next
  case (Cons group rest)
  obtain organization found where g: "group = (organization, found)" by (cases group)
  show ?case
    using Cons.IH [of "snd (extractPosts E organization found s)"]
      extractPosts_ids [of E organization found s] g
    by simp
qed

lemma extractPosts_events_grow:
  "\<exists>new. events (snd (extractPosts E organization found s)) = events s @ new"
proof (induction found arbitrary: s)
  case Nil
  then show ?case by simp
next
  case (Cons post rest)
  obtain r s1 where e: "extractEventFromPost E organization post s = (r, s1)"
    by (cases "extractEventFromPost E organization post s")
  obtain rs s2 where t: "extractPosts E organization rest s1 = (rs, s2)"
    by (cases "extractPosts E organization rest s1")
  obtain n1 where "events s1 = events s @ n1"
    using extractEvent_events_grow [of E organization post s] e by auto
  moreover obtain n2 where "events s2 = events s1 @ n2" using Cons.IH [of s1] t by auto
  ultimately show ?case using e t by simp
qed

lemma extractPosts_completed_kept:
  "\<forall>p \<in> set (posts s). post_id p = i \<longrightarrow> completedAt p = Some (nowDate E) \<Longrightarrow>
     \<forall>p \<in> set (posts (snd (extractPosts E organization found s))).
        post_id p = i \<longrightarrow> completedAt p = Some (nowDate E)"
proof (induction found arbitrary: s)
  case Nil
  then show ?case by simp
next
  case (Cons post rest)
  obtain r s1 where e: "extractEventFromPost E organization post s = (r, s1)"
    by (cases "extractEventFromPost E organization post s")
  obtain rs s2 where t: "extractPosts E organization rest s1 = (rs, s2)"
    by (cases "extractPosts E organization rest s1")
  have "\<forall>p \<in> set (posts s1). post_id p = i \<longrightarrow> completedAt p = Some (nowDate E)"
    using extractEvent_completed_kept [OF Cons.prems, of organization post] e by simp
  then have "\<forall>p \<in> set (posts s2). post_id p = i \<longrightarrow> completedAt p = Some (nowDate E)"
    using Cons.IH [of s1] t by simp
  then show ?case using e t by simp
qed

lemma extractGroups_events_grow: "\<exists>new. events (extractGroups E groups s) = events s @ new"
proof (induction groups arbitrary: s)
  case Nil
  then show ?case by simp
next
  case (Cons group rest)
  obtain organization found where g: "group = (organization, found)" by (cases group)
  obtain n1 where "events (snd (extractPosts E organization found s)) = events s @ n1"
    using extractPosts_events_grow by blast
  moreover obtain n2 where "events (extractGroups E rest (snd (extractPosts E organization found s)))
      = events (snd (extractPosts E organization found s)) @ n2"
    using Cons.IH by blast
  ultimately show ?case using g by simp
qed

lemma extractGroups_completed_kept:
  "\<forall>p \<in> set (posts s). post_id p = i \<longrightarrow> completedAt p = Some (nowDate E) \<Longrightarrow>
     \<forall>p \<in> set (posts (extractGroups E groups s)).
        post_id p = i \<longrightarrow> completedAt p = Some (nowDate E)"
proof (induction groups arbitrary: s)
  case Nil
  then show ?case by simp
next
  case (Cons group rest)
  obtain organization found where g: "group = (organization, found)" by (cases group)
  have "\<forall>p \<in> set (posts (snd (extractPosts E organization found s))).
      post_id p = i \<longrightarrow> completedAt p = Some (nowDate E)"
    using Cons.prems by (rule extractPosts_completed_kept)
  then show ?case using Cons.IH [of "snd (extractPosts E organization found s)"] g by simp
qed

lemma extractPosts_accepted:
  assumes detected: "\<And>s0. fst (extractTextFromPostImages E post s0) = Inr imageText"
    and answer: "executePrompt E (instagramInitialPrompt E organization post imageText)
        = Inr (Some generatedJson)"
    and content: "generatedJson \<noteq> []"
    and sanitized: "postProcessOpenAiInstagramResponse (parse E) (nowYear E) generatedJson
        = Inr inference"
    and gate: "acceptanceGate inference"
  shows "post \<in> set found \<Longrightarrow> post_id post \<in> post_id ` set (posts s) \<Longrightarrow>
     newEvent E inference post organization \<in> set (events (snd (extractPosts E organization found s)))
     \<and> (\<forall>p \<in> set (posts (snd (extractPosts E organization found s))).
           post_id p = post_id post \<longrightarrow> completedAt p = Some (nowDate E))"
proof (induction found arbitrary: s)
  case Nil
  then show ?case by simp
next
  case (Cons first rest)
  obtain r s1 where e: "extractEventFromPost E organization first s = (r, s1)"
    by (cases "extractEventFromPost E organization first s")
  obtain rs s2 where t: "extractPosts E organization rest s1 = (rs, s2)"
    by (cases "extractPosts E organization rest s1")
  have final: "snd (extractPosts E organization (first # rest) s) = s2" using e t by simp
  have ids: "post_id post \<in> post_id ` set (posts s1)"
  proof -
    have "set (map post_id (posts s1)) = set (map post_id (posts s))"
      using extractEvent_ids [of E organization first s] e by simp
    then show ?thesis using Cons.prems(2) by simp
  qed
  show ?case
  proof (cases "post = first")
    case True
    have ev: "events s1 = events s @ [newEvent E inference post organization]"
      using extractEvent_accepted(1) [OF detected answer content sanitized gate Cons.prems(2)]
        e True by simp
    have marked: "\<forall>p \<in> set (posts s1). post_id p = post_id post \<longrightarrow> completedAt p = Some (nowDate E)"
      using extractEvent_accepted(2) [OF detected answer content sanitized gate Cons.prems(2)]
        e True by simp
    obtain n where "events s2 = events s1 @ n"
      using extractPosts_events_grow [of E organization rest s1] t by auto
    then have "newEvent E inference post organization \<in> set (events s2)" using ev by simp
    moreover have "\<forall>p \<in> set (posts s2). post_id p = post_id post \<longrightarrow> completedAt p = Some (nowDate E)"
      using extractPosts_completed_kept [OF marked, of organization rest] t by simp
    ultimately show ?thesis unfolding final by simp
  next
    case False
    then have "post \<in> set rest" using Cons.prems(1) by simp
    then show ?thesis unfolding final using Cons.IH [OF _ ids] t by simp
  qed
qed

lemma extractGroups_accepted:
  assumes detected: "\<And>s0. fst (extractTextFromPostImages E post s0) = Inr imageText"
    and answer: "executePrompt E (instagramInitialPrompt E organization post imageText)
        = Inr (Some generatedJson)"
    and content: "generatedJson \<noteq> []"
    and sanitized: "postProcessOpenAiInstagramResponse (parse E) (nowYear E) generatedJson
        = Inr inference"
    and gate: "acceptanceGate inference"
    and member: "post \<in> set found"
  shows "(organization, found) \<in> set groups \<Longrightarrow> post_id post \<in> post_id ` set (posts s) \<Longrightarrow>
     newEvent E inference post organization \<in> set (events (extractGroups E groups s))
     \<and> (\<forall>p \<in> set (posts (extractGroups E groups s)).
           post_id p = post_id post \<longrightarrow> completedAt p = Some (nowDate E))"
proof (induction groups arbitrary: s)
  case Nil
  then show ?case by simp
next
  case (Cons group rest)
  obtain org0 found0 where g: "group = (org0, found0)" by (cases group)
  let ?s1 = "snd (extractPosts E org0 found0 s)"
  have final: "extractGroups E (group # rest) s = extractGroups E rest ?s1" using g by simp
  have ids: "post_id post \<in> post_id ` set (posts ?s1)"
  proof -
    have "set (map post_id (posts ?s1)) = set (map post_id (posts s))"
      using extractPosts_ids [of E org0 found0 s] by simp
    then show ?thesis using Cons.prems(2) by simp
  qed
  show ?case
  proof (cases "group = (organization, found)")
    case True
    have here: "newEvent E inference post organization \<in> set (events ?s1)
        \<and> (\<forall>p \<in> set (posts ?s1). post_id p = post_id post \<longrightarrow> completedAt p = Some (nowDate E))"
      using extractPosts_accepted [OF detected answer content sanitized gate member Cons.prems(2)]
        True g by simp
    obtain n where "events (extractGroups E rest ?s1) = events ?s1 @ n"
      using extractGroups_events_grow by blast
    then have "newEvent E inference post organization \<in> set (events (extractGroups E rest ?s1))"
      using here by simp
    moreover have "\<forall>p \<in> set (posts (extractGroups E rest ?s1)).
        post_id p = post_id post \<longrightarrow> completedAt p = Some (nowDate E)"
      using here by (intro extractGroups_completed_kept) simp
    ultimately show ?thesis unfolding final by simp
  next
    case False
    then have "(organization, found) \<in> set rest" using Cons.prems(1) by simp
    then show ?thesis unfolding final using Cons.IH [OF _ ids] by simp
  qed
qed

text \<open>For a post whose list of media URLs is \<^verbatim>\<open>null\<close>, text detection is not called
  and the text is \<^verbatim>\<open>null\<close>.\<close>

lemma extractText_null_media:
  "mediaUrlsJson post = None \<Longrightarrow> extractTextFromPostImages E post s = (Inr None, s)"
  by (simp add: extractTextFromPostImages_def)

text \<open>
  C9, as stated, fails: fixup runs \<^verbatim>\<open>extractEventFromPost\<close>, which starts with
  \<^verbatim>\<open>extractTextFromPostImages\<close>. For the stored post of the example, whose completion
  timestamp is \<^verbatim>\<open>null\<close>, the image is sent to text detection again.
\<close>

theorem fixup_reruns_text_detection_counterexample:
  "fst (fixupInstagramIngestion demoEnv storeWithPost) = Inr ()
   \<and> ocrRequests storeWithPost = []
   \<and> ocrRequests (snd (fixupInstagramIngestion demoEnv storeWithPost))
       = [''https://cdn.example/p1.jpg'']"
  by code_simp

text \<open>
  C9, amended. For every stored post with a \<^verbatim>\<open>null\<close> completion timestamp, whose
  organizer the store has under a unique id, fixup reruns the whole extraction on the
  stored data, text detection included. When the credentials of the text-detection
  service are present and the stored list of media URLs is not \<^verbatim>\<open>null\<close>, that list is
  sent to text detection during the fixup. With the text that text detection gives
  (\<^verbatim>\<open>null\<close> for a post whose list of media URLs is \<^verbatim>\<open>null\<close>), the inference is run
  on the prompt made of the organizer, the stored post and that text; its answer is
  sanitized; and when the sanitized result passes the gate, the event made of it is in
  the store at the end and the post is marked complete. Fixup creates no post.
\<close>

theorem fixup_reruns_extraction:
  assumes returns: "fst (fixupInstagramIngestion E s) = Inr ()"
    and stored: "post \<in> set (posts s)" and incomplete: "completedAt post = None"
    and organization: "organization \<in> set (organizers s)"
      "organizer_id organization = organizerId post"
    and keys: "distinct (map organizer_id (organizers s))"
  shows "(visionPrivateKey E \<and> visionClientEmail E \<and> mediaUrlsJson post = Some urls \<longrightarrow>
            (\<exists>before after. ocrRequests (snd (fixupInstagramIngestion E s))
               = ocrRequests s @ before @ urls @ after))
       \<and> (fst (extractTextFromPostImages E post s) = Inr imageText \<longrightarrow>
            (\<exists>before after. logged (snd (fixupInstagramIngestion E s))
               = logged s @ before
                   @ [LogDebugPrompt (instagramInitialPrompt E organization post imageText)]
                   @ after))
       \<and> (fst (extractTextFromPostImages E post s) = Inr imageText
            \<and> executePrompt E (instagramInitialPrompt E organization post imageText)
                = Inr (Some generatedJson)
            \<and> generatedJson \<noteq> []
            \<and> postProcessOpenAiInstagramResponse (parse E) (nowYear E) generatedJson
                = Inr inference
            \<and> acceptanceGate inference \<longrightarrow>
            newEvent E inference post organization
              \<in> set (events (snd (fixupInstagramIngestion E s)))
            \<and> (\<exists>p. p \<in> set (posts (snd (fixupInstagramIngestion E s)))
                  \<and> post_id p = post_id post \<and> completedAt p = Some (nowDate E)))
       \<and> map post_id (posts (snd (fixupInstagramIngestion E s))) = map post_id (posts s)"
proof -
  obtain groups where f: "findPosts (\<lambda>post. completedAt post = None) s = Inr groups"
    using returns by (cases "findPosts (\<lambda>post. completedAt post = None) s")
      (simp_all add: fixupInstagramIngestion_def)
  have final: "snd (fixupInstagramIngestion E s) = extractGroups E (map snd groups) s"
    using f by (simp add: fixupInstagramIngestion_def)
  obtain found where g: "(organization, found) \<in> set (map snd groups)" and p: "post \<in> set found"
    using findPosts_group [OF f stored incomplete organization keys] by blast
  have ids: "map post_id (posts (snd (fixupInstagramIngestion E s))) = map post_id (posts s)"
    unfolding final by (rule extractGroups_ids)
  have known: "post_id post \<in> post_id ` set (posts s)" using stored by simp
  have first: "\<exists>before after. ocrRequests (snd (fixupInstagramIngestion E s))
      = ocrRequests s @ before @ urls @ after"
    if "visionPrivateKey E" "visionClientEmail E" "mediaUrlsJson post = Some urls"
  proof -
    obtain b1 a1 where c1: "concat (map (\<lambda>group. concat (map (requested E) (snd group))) (map snd groups))
        = b1 @ concat (map (requested E) found) @ a1"
      using g concat_map_member [of "(organization, found)" "map snd groups"
          "\<lambda>group. concat (map (requested E) (snd group))"] by auto
    obtain b2 a2 where c2: "concat (map (requested E) found) = b2 @ requested E post @ a2"
      using concat_map_member [OF p, of "requested E"] by blast
    have r: "requested E post = urls" using that by (simp add: requested_def)
    have "ocrRequests (snd (fixupInstagramIngestion E s))
        = ocrRequests s @ (b1 @ b2) @ urls @ (a2 @ a1)"
      using final extractGroups_requests [of E "map snd groups" s] c1 c2 r by simp
    then show ?thesis by blast
  qed
  have detected: "fst (extractTextFromPostImages E post s0) = Inr imageText"
    if "fst (extractTextFromPostImages E post s) = Inr imageText" for s0
    using that extractText_result [of E post s0 s] by simp
  have second: "\<exists>before after. logged (snd (fixupInstagramIngestion E s))
      = logged s @ before
          @ [LogDebugPrompt (instagramInitialPrompt E organization post imageText)] @ after"
    if t: "fst (extractTextFromPostImages E post s) = Inr imageText"
    using extractGroups_prompt [OF g p detected [OF t], of s] final by auto
  have third: "newEvent E inference post organization
        \<in> set (events (snd (fixupInstagramIngestion E s)))
      \<and> (\<exists>p. p \<in> set (posts (snd (fixupInstagramIngestion E s)))
            \<and> post_id p = post_id post \<and> completedAt p = Some (nowDate E))"
    if t: "fst (extractTextFromPostImages E post s) = Inr imageText"
      and answer: "executePrompt E (instagramInitialPrompt E organization post imageText)
          = Inr (Some generatedJson)"
      and content: "generatedJson \<noteq> []"
      and sanitized: "postProcessOpenAiInstagramResponse (parse E) (nowYear E) generatedJson
          = Inr inference"
      and gate: "acceptanceGate inference"
  proof -
    have acc: "newEvent E inference post organization \<in> set (events (extractGroups E (map snd groups) s))
        \<and> (\<forall>p \<in> set (posts (extractGroups E (map snd groups) s)).
              post_id p = post_id post \<longrightarrow> completedAt p = Some (nowDate E))"
      using extractGroups_accepted [OF detected [OF t] answer content sanitized gate p g known] .
    have "post_id post \<in> set (map post_id (posts (snd (fixupInstagramIngestion E s))))"
      using ids known by simp
    then obtain q where "q \<in> set (posts (snd (fixupInstagramIngestion E s)))"
        "post_id q = post_id post" by auto
    then show ?thesis using acc final by auto
  qed
  show ?thesis using first second third ids by blast
qed

theorem fixup_reruns_extraction_witness:
  "(\<exists>before after. ocrRequests (snd (fixupInstagramIngestion demoEnv storeWithPost))
      = ocrRequests storeWithPost @ before @ [''https://cdn.example/p1.jpg''] @ after)
   \<and> (\<exists>before after. logged (snd (fixupInstagramIngestion demoEnv storeWithPost))
        = logged storeWithPost @ before
            @ [LogDebugPrompt (instagramInitialPrompt demoEnv demoOrganizer demoPost
                 (Some ''Live Music 8pm-10pm Friday Dec 29''))]
            @ after)
   \<and> newEvent demoEnv liveMusicResult demoPost demoOrganizer
        \<in> set (events (snd (fixupInstagramIngestion demoEnv storeWithPost)))
   \<and> (\<exists>p. p \<in> set (posts (snd (fixupInstagramIngestion demoEnv storeWithPost)))
         \<and> post_id p = post_id demoPost \<and> completedAt p = Some (nowDate demoEnv))
   \<and> map post_id (posts (snd (fixupInstagramIngestion demoEnv storeWithPost)))
       = map post_id (posts storeWithPost)"
proof -
  have returns: "fst (fixupInstagramIngestion demoEnv storeWithPost) = Inr ()" by code_simp
  have stored: "demoPost \<in> set (posts storeWithPost)" by (simp add: storeWithPost_def)
  have incomplete: "completedAt demoPost = None" by (simp add: demoPost_def)
  have organization: "demoOrganizer \<in> set (organizers storeWithPost)"
    "organizer_id demoOrganizer = organizerId demoPost"
    by (simp_all add: storeWithPost_def demoOrganizer_def demoPost_def)
  have keys: "distinct (map organizer_id (organizers storeWithPost))"
    by (simp add: storeWithPost_def)
  have media: "mediaUrlsJson demoPost = Some [''https://cdn.example/p1.jpg'']"
    by (simp add: demoPost_def)
  have credentials: "visionPrivateKey demoEnv" "visionClientEmail demoEnv"
    by (simp_all add: demoEnv_def)
  have detected: "fst (extractTextFromPostImages demoEnv demoPost storeWithPost)
      = Inr (Some ''Live Music 8pm-10pm Friday Dec 29'')"
    by code_simp
  have answer: "executePrompt demoEnv (instagramInitialPrompt demoEnv demoOrganizer demoPost
      (Some ''Live Music 8pm-10pm Friday Dec 29'')) = Inr (Some ''{p1}'')"
    by (simp add: demoEnv_def demoPost_def)
  have content: "''{p1}'' \<noteq> []" by simp
  have sanitized: "postProcessOpenAiInstagramResponse (parse demoEnv) (nowYear demoEnv) ''{p1}''
      = Inr liveMusicResult"
    by (simp add: postProcessOpenAiInstagramResponse_def demoEnv_def fixGeneratedJson_def
        liveMusicResult_def hasAllProperties_def liveMusic_def)
  have gate: "acceptanceGate liveMusicResult" by (simp add: acceptanceGate_def example_fields)
  show ?thesis
    using fixup_reruns_extraction [OF returns stored incomplete organization keys,
        of "[''https://cdn.example/p1.jpg'']" "Some ''Live Music 8pm-10pm Friday Dec 29''"
           "''{p1}''" liveMusicResult]
      media credentials detected answer content sanitized gate
    by blast
qed

end
